theory Spec2Isabelle
  imports Complex_Main "HOL-Library.Word"
begin

unbundle bit_operations_syntax

section \<open>Return codes\<close>

text \<open>The \<^verbatim>\<open>hresult_t\<close> codes used by the functions modelled below.\<close>

datatype hresult_t = SUCCESS | ERROR_GENERIC | ERROR_BAD_INPUT | ERROR_INIT_FAILED

section \<open>Double-precision values\<close>

text \<open>
  A \<^verbatim>\<open>float64_t\<close> (\<^verbatim>\<open>double\<close>) is an IEEE 754 binary64 value: a not-a-number, one of the
  two infinities, or a finite value. A finite value is carried as the real number it denotes.
  The two zeros are one value: the sign of a zero is not modelled, and a division by zero
  behaves as a division by the positive zero.
\<close>

datatype float64 = NaN | PInf | NInf | Finite real

text \<open>
  Rounding to the nearest double, ties to even, the default rounding of the processor.
  \<^verbatim>\<open>rnd_even\<close> rounds a real number to the nearest integer, a tie to the even one. The binade
  of a number is the exponent \<^verbatim>\<open>e\<close> of the power of two with \<^verbatim>\<open>2^e \<le> |x| < 2^(e+1)\<close>, kept
  between \<^verbatim>\<open>-1022\<close>, the exponent of the subnormal numbers, and \<^verbatim>\<open>1023\<close>, the largest one. The
  doubles of a binade are the multiples of its quantum \<^verbatim>\<open>2^(e-52)\<close>, so that a significand has
  53 bits and the subnormal numbers are the multiples of \<^verbatim>\<open>2^(-1074)\<close>; \<^verbatim>\<open>rnd_real\<close> rounds to
  the nearest multiple of the quantum. A result that rounds to \<^verbatim>\<open>2^1024\<close> or beyond overflows
  to the infinity of its sign; a result that rounds to zero underflows to zero.
\<close>

definition rnd_even :: "real \<Rightarrow> int" where
  "rnd_even x =
     (let n = \<lfloor>x\<rfloor>; d = x - of_int n
      in if d < 1 / 2 then n else if 1 / 2 < d then n + 1 else if even n then n else n + 1)"

function binade_from :: "int \<Rightarrow> real \<Rightarrow> int" where
  "binade_from e a = (if 1023 \<le> e \<or> a < 2 powi (e + 1) then e else binade_from (e + 1) a)"
  by pat_completeness auto
termination
  by (relation "measure (\<lambda>(e, a). nat (1023 - e))") auto

declare binade_from.simps [simp del]

definition binade :: "real \<Rightarrow> int" where
  "binade x = binade_from (- 1022) \<bar>x\<bar>"

definition quantum :: "real \<Rightarrow> real" where
  "quantum x = 2 powi (binade x - 52)"

definition rnd_real :: "real \<Rightarrow> real" where
  "rnd_real x = of_int (rnd_even (x / quantum x)) * quantum x"

definition f_inf :: "bool \<Rightarrow> float64" where
  "f_inf positive = (if positive then PInf else NInf)"

definition rnd :: "real \<Rightarrow> float64" where
  "rnd x = (if 2 ^ 1024 \<le> \<bar>rnd_real x\<bar> then f_inf (0 < x) else Finite (rnd_real x))"

text \<open>
  A value of the model is a double when rounding leaves it as it is. The operations below
  return doubles; a statement that depends on its argument being one says so.
\<close>

definition isDouble :: "float64 \<Rightarrow> bool" where
  "isDouble x = (case x of Finite a \<Rightarrow> rnd a = Finite a | _ \<Rightarrow> True)"

text \<open>
  The operations. Each one computes the exact result of its finite arguments and rounds it
  once: no operation is fused with another and no intermediate result is kept in a wider
  format. The special values follow IEEE 754 and the C library: a comparison with a
  not-a-number is false, \<^verbatim>\<open>std::max(a, b)\<close> is \<^verbatim>\<open>(a < b) ? b : a\<close>, and \<^verbatim>\<open>std::pow\<close> has the
  case table of the C standard. The square root is correctly rounded, as IEEE 754 requires.
  \<^verbatim>\<open>std::pow\<close> of finite arguments is modelled as the correctly rounded power; the C library
  promises an error below one unit in the last place, not correct rounding, so a
  result of the model that rests on a value of \<^verbatim>\<open>std::pow\<close> is the library's only where the
  library rounds that power correctly.
\<close>

definition f_isnan :: "float64 \<Rightarrow> bool" where
  "f_isnan x = (x = NaN)"

fun f_less :: "float64 \<Rightarrow> float64 \<Rightarrow> bool" where
  "f_less NaN y = False"
| "f_less x NaN = False"
| "f_less PInf y = False"
| "f_less NInf y = (y \<noteq> NInf)"
| "f_less (Finite a) PInf = True"
| "f_less (Finite a) NInf = False"
| "f_less (Finite a) (Finite b) = (a < b)"

definition f_max :: "float64 \<Rightarrow> float64 \<Rightarrow> float64" where
  "f_max a b = (if f_less a b then b else a)"

fun f_neg :: "float64 \<Rightarrow> float64" where
  "f_neg NaN = NaN"
| "f_neg PInf = NInf"
| "f_neg NInf = PInf"
| "f_neg (Finite a) = Finite (- a)"

fun f_mul :: "float64 \<Rightarrow> float64 \<Rightarrow> float64" where
  "f_mul NaN y = NaN"
| "f_mul x NaN = NaN"
| "f_mul (Finite a) (Finite b) = rnd (a * b)"
| "f_mul (Finite a) PInf = (if a = 0 then NaN else f_inf (0 < a))"
| "f_mul (Finite a) NInf = (if a = 0 then NaN else f_inf (a < 0))"
| "f_mul PInf (Finite b) = (if b = 0 then NaN else f_inf (0 < b))"
| "f_mul NInf (Finite b) = (if b = 0 then NaN else f_inf (b < 0))"
| "f_mul PInf PInf = PInf"
| "f_mul PInf NInf = NInf"
| "f_mul NInf PInf = NInf"
| "f_mul NInf NInf = PInf"

fun f_div :: "float64 \<Rightarrow> float64 \<Rightarrow> float64" where
  "f_div NaN y = NaN"
| "f_div x NaN = NaN"
| "f_div (Finite a) (Finite b) =
     (if b \<noteq> 0 then rnd (a / b) else if a = 0 then NaN else f_inf (0 < a))"
| "f_div (Finite a) PInf = Finite 0"
| "f_div (Finite a) NInf = Finite 0"
| "f_div PInf (Finite b) = f_inf (0 \<le> b)"
| "f_div NInf (Finite b) = f_inf (b < 0)"
| "f_div PInf PInf = NaN"
| "f_div PInf NInf = NaN"
| "f_div NInf PInf = NaN"
| "f_div NInf NInf = NaN"

fun f_sub :: "float64 \<Rightarrow> float64 \<Rightarrow> float64" where
  "f_sub NaN y = NaN"
| "f_sub x NaN = NaN"
| "f_sub (Finite a) (Finite b) = rnd (a - b)"
| "f_sub (Finite a) PInf = NInf"
| "f_sub (Finite a) NInf = PInf"
| "f_sub PInf PInf = NaN"
| "f_sub PInf y = PInf"
| "f_sub NInf NInf = NaN"
| "f_sub NInf y = NInf"

fun f_add :: "float64 \<Rightarrow> float64 \<Rightarrow> float64" where
  "f_add NaN y = NaN"
| "f_add x NaN = NaN"
| "f_add (Finite a) (Finite b) = rnd (a + b)"
| "f_add (Finite a) y = y"
| "f_add PInf NInf = NaN"
| "f_add PInf y = PInf"
| "f_add NInf PInf = NaN"
| "f_add NInf y = NInf"

fun f_sqrt :: "float64 \<Rightarrow> float64" where
  "f_sqrt NaN = NaN"
| "f_sqrt PInf = PInf"
| "f_sqrt NInf = NaN"
| "f_sqrt (Finite a) = (if a < 0 then NaN else rnd (sqrt a))"

definition is_odd_integer :: "real \<Rightarrow> bool" where
  "is_odd_integer y = (y \<in> \<int> \<and> odd \<lfloor>y\<rfloor>)"

fun f_pow :: "float64 \<Rightarrow> float64 \<Rightarrow> float64" where
  "f_pow x (Finite y) =
     (if y = 0 then Finite 1
      else case x of
        NaN \<Rightarrow> NaN
      | PInf \<Rightarrow> (if y < 0 then Finite 0 else PInf)
      | NInf \<Rightarrow> (if y < 0 then Finite 0 else if is_odd_integer y then NInf else PInf)
      | Finite a \<Rightarrow>
          (if 0 < a then rnd (a powr y)
           else if a = 0 then (if 0 < y then Finite 0 else PInf)
           else if y \<in> \<int> then
             rnd ((if is_odd_integer y then - 1 else 1) * ((- a) powr y))
           else NaN))"
| "f_pow x NaN = (if x = Finite 1 then Finite 1 else NaN)"
| "f_pow x PInf =
     (case x of
        NaN \<Rightarrow> NaN
      | PInf \<Rightarrow> PInf
      | NInf \<Rightarrow> PInf
      | Finite a \<Rightarrow> (if \<bar>a\<bar> < 1 then Finite 0 else if \<bar>a\<bar> = 1 then Finite 1 else PInf))"
| "f_pow x NInf =
     (case x of
        NaN \<Rightarrow> NaN
      | PInf \<Rightarrow> Finite 0
      | NInf \<Rightarrow> Finite 0
      | Finite a \<Rightarrow> (if \<bar>a\<bar> < 1 then PInf else if \<bar>a\<bar> = 1 then Finite 1 else Finite 0))"

section \<open>Telemetry data registry (telemetry\_data.hxx)\<close>

text \<open>
  A registry is the \<^verbatim>\<open>std::deque<std::pair<std::string, T>>\<close> of the source, kept as a
  list in insertion order. A pointer to the \<^verbatim>\<open>second\<close> component of an element is
  modelled by the element's index: \<^verbatim>\<open>emplace_back\<close> on a deque never moves an existing
  element, so the index identifies the address for the lifetime of the deque. The
  out-parameter \<^verbatim>\<open>positionInBuffer\<close> is passed in and returned, because the failing path
  leaves it as it was.
\<close>

type_synonym 'v registry = "(string \<times> 'v) list"

text \<open>\<^verbatim>\<open>std::find_if\<close> with the predicate \<^verbatim>\<open>element.first == name\<close>: the first match.\<close>

fun find_if_name :: "string \<Rightarrow> 'v registry \<Rightarrow> nat option" where
  "find_if_name name [] = None"
| "find_if_name name (element # rest) =
     (if fst element = name then Some 0 else map_option Suc (find_if_name name rest))"

text \<open>
  \<^verbatim>\<open>TelemetryData::registerVariable<T>\<close>, on the registry that \<^verbatim>\<open>getRegistry<T>()\<close>
  selects. \<^verbatim>\<open>T{}\<close> is the zero of the value type.
\<close>

definition registerVariable ::
  "bool \<Rightarrow> string \<Rightarrow> nat option \<Rightarrow> ('v::zero) registry
     \<Rightarrow> hresult_t \<times> nat option \<times> 'v registry" where
  "registerVariable isRegisteringAvailable name positionInBuffer registry =
     (case find_if_name name registry of
        Some variableIt \<Rightarrow> (SUCCESS, Some variableIt, registry)
      | None \<Rightarrow>
          if \<not> isRegisteringAvailable then (ERROR_GENERIC, positionInBuffer, registry)
          else (SUCCESS, Some (length registry), registry @ [(name, 0)]))"

text \<open>
  The telemetry data object: the two variable registries (64-bit integers, and 64-bit
  floats kept as their bit patterns), the constants, and the registration flag.
\<close>

record TelemetryData =
  constantsRegistry :: "(string \<times> string) list"
  integersRegistry :: "64 word registry"
  floatsRegistry :: "64 word registry"
  isRegisteringAvailable :: bool

text \<open>The two instances of the template, each on its own registry.\<close>

definition registerVariable_int64 ::
  "string \<Rightarrow> nat option \<Rightarrow> TelemetryData \<Rightarrow> hresult_t \<times> nat option \<times> TelemetryData" where
  "registerVariable_int64 name positionInBuffer d =
     (case registerVariable (isRegisteringAvailable d) name positionInBuffer (integersRegistry d) of
        (rc, p, registry) \<Rightarrow> (rc, p, d\<lparr>integersRegistry := registry\<rparr>))"

definition registerVariable_float64 ::
  "string \<Rightarrow> nat option \<Rightarrow> TelemetryData \<Rightarrow> hresult_t \<times> nat option \<times> TelemetryData" where
  "registerVariable_float64 name positionInBuffer d =
     (case registerVariable (isRegisteringAvailable d) name positionInBuffer (floatsRegistry d) of
        (rc, p, registry) \<Rightarrow> (rc, p, d\<lparr>floatsRegistry := registry\<rparr>))"

section \<open>Adaptive step adjustment (runge\_kutta\_dopri\_stepper.cc)\<close>

text \<open>
  Modelled from the spec: the constants of namespace \<^verbatim>\<open>DOPRI\<close>, declared in the stepper's
  header, which is not among the sources. The spec recommends \<^verbatim>\<open>SAFETY=0.9\<close>,
  \<^verbatim>\<open>MIN_FACTOR=0.2\<close>, \<^verbatim>\<open>MAX_FACTOR=5.0\<close> and \<^verbatim>\<open>p=5\<close> for the order. A constant of type
  \<^verbatim>\<open>float64_t\<close> holds the double nearest to its decimal literal: \<^verbatim>\<open>0.9\<close> and \<^verbatim>\<open>0.2\<close> are not
  doubles and are rounded, \<^verbatim>\<open>5.0\<close> is one.
\<close>

definition SAFETY :: float64 where
  "SAFETY = rnd 0.9"
definition MIN_FACTOR :: float64 where
  "MIN_FACTOR = rnd 0.2"
definition MAX_FACTOR :: float64 where
  "MAX_FACTOR = Finite 5.0"
definition STEPPER_ORDER :: float64 where
  "STEPPER_ORDER = Finite 5.0"

text \<open>
  \<^verbatim>\<open>RungeKuttaDOPRIStepper::adjustStepImpl\<close>. The step \<^verbatim>\<open>dt\<close> is passed by reference in the
  source; the model returns the acceptance flag together with the new step. The literal
  \<^verbatim>\<open>0.1\<close> is rounded to a double as the compiler does; \<^verbatim>\<open>1.0\<close>, \<^verbatim>\<open>-1.0\<close> and \<^verbatim>\<open>2\<close> are
  doubles. Every product, quotient and difference is rounded where the source computes it,
  in the order of the source: \<^verbatim>\<open>dt *= a * b\<close> rounds \<^verbatim>\<open>a * b\<close> and then its product with
  \<^verbatim>\<open>dt\<close>.
\<close>

definition adjustStepImpl :: "float64 \<Rightarrow> float64 \<Rightarrow> bool \<times> float64" where
  "adjustStepImpl error dt =
     (if f_isnan error then (False, f_mul dt (rnd 0.1))
      else if f_less error (Finite 1.0) then
        (if f_less error (f_pow SAFETY STEPPER_ORDER) then
           (let newError = f_max error
                  (f_pow (f_div MAX_FACTOR SAFETY) (f_neg STEPPER_ORDER))
            in (True, f_mul dt (f_mul SAFETY
                  (f_pow newError (f_div (Finite (- 1.0)) STEPPER_ORDER)))))
         else (True, dt))
      else (False, f_mul dt
              (f_max (f_mul SAFETY
                        (f_pow error (f_div (Finite (- 1.0))
                                       (f_sub STEPPER_ORDER (Finite 2)))))
                     MIN_FACTOR)))"


definition safety :: real where
  "safety = 8106479329266893 / 2 ^ 53"
definition minFactor :: real where
  "minFactor = 3602879701896397 / 2 ^ 54"
definition tenth :: real where
  "tenth = 3602879701896397 / 2 ^ 55"
definition growExponent :: real where
  "growExponent = - (3602879701896397 / 2 ^ 54)"
definition shrinkExponent :: real where
  "shrinkExponent = - (6004799503160661 / 2 ^ 54)"
definition factorRatio :: real where
  "factorRatio = 3127499741229511 / 2 ^ 49"
definition errorFloor :: real where
  "errorFloor = 6971275461174243 / 2 ^ 65"
definition growThreshold :: real where
  "growThreshold = 5318661087932009 / 2 ^ 53"
definition growMax :: real where
  "growMax = 6254999482459023 / 2 ^ 50"
definition growFactorMax :: real where
  "growFactorMax = 5629499534213121 / 2 ^ 50"

section \<open>Distance constraint (distance\_constraint.cc)\<close>

subsection \<open>Three-dimensional vectors\<close>

text \<open>
  \<^verbatim>\<open>Eigen::Vector3d\<close> with the operations the constraint uses. \<^verbatim>\<open>norm()\<close> is the square
  root of \<^verbatim>\<open>squaredNorm()\<close>, the dot product of the vector with itself. Eigen is not among
  the sources: every product, sum, difference and quotient of components is rounded to a
  double, the three products of a dot product are added from left to right, and the squares
  are not rescaled, so that \<^verbatim>\<open>norm()\<close> overflows when a square does.
\<close>

type_synonym Vector3d = "float64 \<times> float64 \<times> float64"

fun v_sub :: "Vector3d \<Rightarrow> Vector3d \<Rightarrow> Vector3d" where
  "v_sub (x1, y1, z1) (x2, y2, z2) = (f_sub x1 x2, f_sub y1 y2, f_sub z1 z2)"

fun v_add :: "Vector3d \<Rightarrow> Vector3d \<Rightarrow> Vector3d" where
  "v_add (x1, y1, z1) (x2, y2, z2) = (f_add x1 x2, f_add y1 y2, f_add z1 z2)"

fun v_dot :: "Vector3d \<Rightarrow> Vector3d \<Rightarrow> float64" where
  "v_dot (x1, y1, z1) (x2, y2, z2) = f_add (f_add (f_mul x1 x2) (f_mul y1 y2)) (f_mul z1 z2)"

fun v_cross :: "Vector3d \<Rightarrow> Vector3d \<Rightarrow> Vector3d" where
  "v_cross (x1, y1, z1) (x2, y2, z2) =
     (f_sub (f_mul y1 z2) (f_mul z1 y2),
      f_sub (f_mul z1 x2) (f_mul x1 z2),
      f_sub (f_mul x1 y2) (f_mul y1 x2))"

fun v_div :: "Vector3d \<Rightarrow> float64 \<Rightarrow> Vector3d" where
  "v_div (x, y, z) s = (f_div x s, f_div y s, f_div z s)"

definition squaredNorm :: "Vector3d \<Rightarrow> float64" where
  "squaredNorm v = v_dot v v"

definition norm3 :: "Vector3d \<Rightarrow> float64" where
  "norm3 v = f_sqrt (squaredNorm v)"

subsection \<open>The mechanics state the constraint reads\<close>

text \<open>
  Modelled from the spec: the mechanics oracle, an external library, and the lookup
  helper \<^verbatim>\<open>getFrameIdx\<close> of the repository's utilities, neither among the sources. The
  oracle's outputs for a frame are data here: its placement \<^verbatim>\<open>oMf[i].translation()\<close>, and
  what \<^verbatim>\<open>getFrameVelocity\<close>, \<^verbatim>\<open>getFrameAcceleration\<close> and \<^verbatim>\<open>getFrameJacobian\<close> return in
  the world-aligned local frame (the jacobian as its \<^verbatim>\<open>nv\<close> columns, each with a linear
  and an angular part). \<^verbatim>\<open>getFrameIdx\<close> yields the index of the first frame with the given
  name, or \<^verbatim>\<open>ERROR_BAD_INPUT\<close> with the index left alone when there is none.
\<close>

record Motion =
  linear :: Vector3d
  angular :: Vector3d

record Frame =
  frameName :: string
  translation :: Vector3d
  frameVelocity :: Motion
  frameAcceleration :: Motion
  frameJacobian :: "Motion list"

record Model =
  nv :: nat
  frames :: "Frame list"

fun getFrameIdx_from :: "nat \<Rightarrow> Frame list \<Rightarrow> string \<Rightarrow> nat option" where
  "getFrameIdx_from i [] wanted = None"
| "getFrameIdx_from i (f # fs) wanted =
     (if frameName f = wanted then Some i else getFrameIdx_from (Suc i) fs wanted)"

definition getFrameIdx :: "Model \<Rightarrow> string \<Rightarrow> nat \<Rightarrow> hresult_t \<times> nat" where
  "getFrameIdx model wanted frameIdx =
     (case getFrameIdx_from 0 (frames model) wanted of
        None \<Rightarrow> (ERROR_BAD_INPUT, frameIdx)
      | Some i \<Rightarrow> (SUCCESS, i))"

subsection \<open>The constraint object\<close>

text \<open>
  The fields of \<^verbatim>\<open>DistanceConstraint\<close> and of its base class that the three functions
  read or write. The weak pointer \<^verbatim>\<open>model_\<close> is passed to each function as a
  \<^typ>\<open>Model option\<close>, \<^term>\<open>None\<close> when it has expired.
\<close>

record DistanceConstraint =
  isAttached :: bool
  kp :: float64
  kd :: float64
  frameNames :: "string \<times> string"
  frameIndices :: "nat \<times> nat"
  distanceRef :: float64
  frameJacobians :: "Motion list \<times> Motion list"
  jacobian :: "float64 list"
  drift :: float64
  lambda :: float64

definition setReferenceDistance ::
  "float64 \<Rightarrow> DistanceConstraint \<Rightarrow> hresult_t \<times> DistanceConstraint" where
  "setReferenceDistance d c =
     (if f_less d (Finite 0.0) then (ERROR_BAD_INPUT, c)
      else (SUCCESS, c\<lparr>distanceRef := d\<rparr>))"

definition getReferenceDistance :: "DistanceConstraint \<Rightarrow> float64" where
  "getReferenceDistance c = distanceRef c"

definition zeroMotion :: Motion where
  "zeroMotion =
     \<lparr>linear = (Finite 0, Finite 0, Finite 0), angular = (Finite 0, Finite 0, Finite 0)\<rparr>"

text \<open>A vector whose three components are finite.\<close>

definition isFinite3 :: "Vector3d \<Rightarrow> bool" where
  "isFinite3 v = (case v of (Finite x, Finite y, Finite z) \<Rightarrow> True | _ \<Rightarrow> False)"

text \<open>
  A vector whose three components are finite and of magnitude at most \<^verbatim>\<open>2^510\<close>, and a
  coordinate, \<^verbatim>\<open>2^600\<close>, whose square is beyond the largest double.
\<close>

definition boundedCoordinate :: "float64 \<Rightarrow> bool" where
  "boundedCoordinate c = (case c of Finite x \<Rightarrow> \<bar>x\<bar> \<le> 2 ^ 510 | _ \<Rightarrow> False)"

fun boundedVector :: "Vector3d \<Rightarrow> bool" where
  "boundedVector (x, y, z) = (boundedCoordinate x \<and> boundedCoordinate y \<and> boundedCoordinate z)"

definition farCoordinate :: real where
  "farCoordinate = 2 ^ 600"

text \<open>
  The expression \<^verbatim>\<open>oMf[frameIndices_[0]].translation() - oMf[frameIndices_[1]].translation()\<close>
  that both \<^verbatim>\<open>reset\<close> and \<^verbatim>\<open>computeJacobianAndDrift\<close> evaluate.
\<close>

definition deltaPosition :: "Model \<Rightarrow> nat \<times> nat \<Rightarrow> Vector3d" where
  "deltaPosition model idx =
     v_sub (translation (frames model ! fst idx)) (translation (frames model ! snd idx))"

text \<open>
  \<^verbatim>\<open>DistanceConstraint::reset\<close>. The loop over the two frame names is unrolled; a failed
  lookup of the second name keeps the index the first lookup stored.
\<close>

definition DistanceConstraint_reset ::
  "Model option \<Rightarrow> DistanceConstraint \<Rightarrow> hresult_t \<times> DistanceConstraint" where
  "DistanceConstraint_reset modelWeak c =
     (case modelWeak of
        None \<Rightarrow> (ERROR_GENERIC, c)
      | Some model \<Rightarrow>
          (case getFrameIdx model (fst (frameNames c)) (fst (frameIndices c)) of
             (rc0, i0) \<Rightarrow>
               let c0 = c\<lparr>frameIndices := (i0, snd (frameIndices c))\<rparr> in
               if rc0 \<noteq> SUCCESS then (rc0, c0)
               else
                 (case getFrameIdx model (snd (frameNames c0)) (snd (frameIndices c0)) of
                    (rc1, i1) \<Rightarrow>
                      let c1 = c0\<lparr>frameIndices := (i0, i1)\<rparr> in
                      if rc1 \<noteq> SUCCESS then (rc1, c1)
                      else
                        (SUCCESS,
                         c1\<lparr>frameJacobians :=
                               (replicate (nv model) zeroMotion, replicate (nv model) zeroMotion),
                             jacobian := replicate (nv model) (Finite 0),
                             drift := Finite 0,
                             lambda := Finite 0,
                             distanceRef := norm3 (deltaPosition model (frameIndices c1))\<rparr>))))"

text \<open>
  The constraint residual \<^verbatim>\<open>deltaPositionNorm - distanceRef_\<close>, the factor of \<^verbatim>\<open>kp_\<close> in
  the Baumgarte term of the drift.
\<close>

definition constraintResidual :: "Model \<Rightarrow> DistanceConstraint \<Rightarrow> float64" where
  "constraintResidual model c =
     f_sub (norm3 (deltaPosition model (frameIndices c))) (distanceRef c)"

text \<open>
  \<^verbatim>\<open>DistanceConstraint::computeJacobianAndDrift\<close>. The source dereferences the locked
  model pointer without a test and indexes \<^verbatim>\<open>oMf\<close> with the stored frame indices; where
  the pointer has expired or an index is out of range the behaviour is undefined, and the
  model returns \<^term>\<open>None\<close>.
\<close>

definition computeJacobianAndDrift ::
  "Model option \<Rightarrow> DistanceConstraint \<Rightarrow> (hresult_t \<times> DistanceConstraint) option" where
  "computeJacobianAndDrift modelWeak c =
     (if \<not> isAttached c then Some (ERROR_GENERIC, c)
      else case modelWeak of
        None \<Rightarrow> None
      | Some model \<Rightarrow>
          if \<not> (fst (frameIndices c) < length (frames model) \<and>
                 snd (frameIndices c) < length (frames model)) then None
          else
            let frame0 = frames model ! fst (frameIndices c);
                frame1 = frames model ! snd (frameIndices c);
                deltaPositionNorm = norm3 (deltaPosition model (frameIndices c));
                direction = v_div (deltaPosition model (frameIndices c)) deltaPositionNorm;
                velocity0 = frameVelocity frame0;
                velocity1 = frameVelocity frame1;
                deltaVelocity = v_sub (linear velocity0) (linear velocity1);
                jacobian0 = frameJacobian frame0;
                jacobian1 = frameJacobian frame1;
                jacobianRow =
                  map2 (\<lambda>col0 col1. v_dot direction (v_sub (linear col0) (linear col1)))
                    jacobian0 jacobian1;
                acceleration0 = v_add (linear (frameAcceleration frame0))
                                  (v_cross (angular velocity0) (linear velocity0));
                acceleration1 = v_add (linear (frameAcceleration frame1))
                                  (v_cross (angular velocity1) (linear velocity1));
                drift0 = v_dot direction (v_sub acceleration0 acceleration1);
                deltaVelocityProj = v_dot deltaVelocity direction;
                drift1 = f_add drift0
                           (f_div (f_sub (squaredNorm deltaVelocity)
                                     (f_pow deltaVelocityProj (Finite 2)))
                              deltaPositionNorm);
                drift2 = f_add drift1
                           (f_add (f_mul (kp c) (constraintResidual model c))
                              (f_mul (kd c) deltaVelocityProj))
            in Some (SUCCESS,
                 c\<lparr>frameJacobians := (jacobian0, jacobian1), jacobian := jacobianRow,
                   drift := drift2\<rparr>))"

section \<open>Telemetry recorder (telemetry\_recorder.cc)\<close>

subsection \<open>Bytes and little-endian values\<close>

type_synonym byte = "8 word"

type_synonym bytes = "byte list"

definition to_bytes :: "'a::len word \<Rightarrow> bytes" where
  "to_bytes w = map (\<lambda>i. ucast (drop_bit (8 * i) w)) [0..<LENGTH('a) div 8]"

definition of_bytes :: "bytes \<Rightarrow> 'a::len word" where
  "of_bytes bs = word_of_int (horner_sum uint (2 ^ 8) bs)"

fun words64 :: "bytes \<Rightarrow> 64 word list" where
  "words64 (b0 # b1 # b2 # b3 # b4 # b5 # b6 # b7 # rest) =
     of_bytes [b0, b1, b2, b3, b4, b5, b6, b7] # words64 rest"
| "words64 rest = []"

lemma length_to_bytes64 [simp]: "length (to_bytes (w :: 64 word)) = 8"
  by (simp add: to_bytes_def)

lemma of_bytes_to_bytes64 [simp]: "of_bytes (to_bytes (w :: 64 word)) = w"
proof (rule bit_word_eqI)
  fix n assume n: "n < LENGTH(64)"
  have "bit (horner_sum uint (2 ^ LENGTH(8)) (to_bytes w)) n = bit w n"
    unfolding bit_horner_sum_uint_exp_iff using n
    by (simp add: to_bytes_def bit_simps less_mult_imp_div_less)
  then show "bit (of_bytes (to_bytes w) :: 64 word) n = bit w n"
    using n by (simp add: of_bytes_def bit_word_of_int_iff)
qed

lemma words64_append:
  "length xs = 8 \<Longrightarrow> words64 (xs @ rest) = of_bytes xs # words64 rest"
  by (auto simp: length_Suc_conv eval_nat_numeral)

subsection \<open>Constants of the telemetry\<close>

text \<open>
  Modelled from the spec: the constants of \<^verbatim>\<open>constants.h\<close>, which is not among the sources.
  Their values are not fixed here: every function of the recorder takes them as the parameter
  \<^verbatim>\<open>K\<close>. \<^verbatim>\<open>readFloat\<close> stands for the stream extraction that turns the text of the time
  unit constant into a double.
\<close>

record TelemetryConstants =
  TELEMETRY_VERSION :: "32 word"
  TELEMETRY_MIN_BUFFER_SIZE :: nat
  START_CONSTANTS :: bytes
  START_COLUMNS :: bytes
  START_DATA :: bytes
  START_LINE_TOKEN :: bytes
  TELEMETRY_CONSTANT_DELIMITER :: bytes
  TIME_UNIT :: bytes
  STEPPER_MIN_TIMESTEP :: float64
  readFloat :: "bytes \<Rightarrow> float64"

subsection \<open>Memory device\<close>

text \<open>
  Modelled from the spec: the memory device, whose class is not among the sources. A chunk is
  a byte buffer of fixed capacity with a cursor. Writing and reading move the cursor and stop at
  the end of the buffer; a write that could not store all its bytes reports \<^verbatim>\<open>ERROR_GENERIC\<close>;
  \<^verbatim>\<open>seek\<close> refuses a position beyond the capacity.
\<close>

record MemoryDevice =
  buffer :: bytes
  currentPos :: nat
  isOpen :: bool

definition MemoryDevice_new :: "nat \<Rightarrow> MemoryDevice" where
  "MemoryDevice_new capacity = \<lparr>buffer = replicate capacity 0, currentPos = 0, isOpen = False\<rparr>"

definition device_open :: "MemoryDevice \<Rightarrow> hresult_t \<times> MemoryDevice" where
  "device_open dev =
     (if isOpen dev then (ERROR_GENERIC, dev)
      else (SUCCESS, dev\<lparr>currentPos := 0, isOpen := True\<rparr>))"

definition device_close :: "MemoryDevice \<Rightarrow> MemoryDevice" where
  "device_close dev = dev\<lparr>isOpen := False\<rparr>"

definition bytesAvailable :: "MemoryDevice \<Rightarrow> nat" where
  "bytesAvailable dev = length (buffer dev) - currentPos dev"

definition device_seek :: "nat \<Rightarrow> MemoryDevice \<Rightarrow> hresult_t \<times> MemoryDevice" where
  "device_seek pos dev =
     (if length (buffer dev) < pos then (ERROR_GENERIC, dev)
      else (SUCCESS, dev\<lparr>currentPos := pos\<rparr>))"

definition device_write :: "bytes \<Rightarrow> MemoryDevice \<Rightarrow> hresult_t \<times> MemoryDevice" where
  "device_write data dev =
     (let toWrite = min (length data) (bytesAvailable dev)
      in (if toWrite < length data then ERROR_GENERIC else SUCCESS,
          dev\<lparr>buffer := take (currentPos dev) (buffer dev) @ take toWrite data @
                          drop (currentPos dev + toWrite) (buffer dev),
              currentPos := currentPos dev + toWrite\<rparr>))"

definition readData :: "nat \<Rightarrow> MemoryDevice \<Rightarrow> bytes \<times> MemoryDevice" where
  "readData dataSize dev =
     (let toRead = min dataSize (bytesAvailable dev)
      in (take toRead (drop (currentPos dev) (buffer dev)),
          dev\<lparr>currentPos := currentPos dev + toRead\<rparr>))"

subsection \<open>The recorder\<close>

text \<open>
  The fields of \<^verbatim>\<open>TelemetryRecorder\<close> that the functions below read or write. The recorder
  holds pointers to the registries of the telemetry data; in the model a snapshot receives the
  telemetry data of the moment as an argument.
\<close>

record TelemetryRecorder =
  flows :: "MemoryDevice list"
  isInitialized :: bool
  recordedBytesLimits :: nat
  recordedBytesDataLine :: nat
  recordedBytes :: nat
  headerSize :: nat
  integerSectionSize :: nat
  floatSectionSize :: nat
  timeUnitInv :: float64

text \<open>\<^verbatim>\<open>update_back f\<close> applies \<^verbatim>\<open>f\<close> to \<^verbatim>\<open>flows_.back()\<close>, if there is one.\<close>

definition update_back :: "('a \<Rightarrow> 'a) \<Rightarrow> 'a list \<Rightarrow> 'a list" where
  "update_back f xs = (if xs = [] then [] else butlast xs @ [f (last xs)])"

text \<open>
  \<^verbatim>\<open>createNewChunk\<close>. The integer division by \<^verbatim>\<open>recordedBytesDataLine_\<close> is undefined for
  a zero divisor: the model has no result there.
\<close>

definition createNewChunk ::
  "TelemetryConstants \<Rightarrow> TelemetryRecorder \<Rightarrow> (hresult_t \<times> TelemetryRecorder) option" where
  "createNewChunk K r =
     (let closed = update_back device_close (flows r);
          isHeaderThere = (if flows r = [] then 1 else 0 :: nat);
          maxBufferSize = max (TELEMETRY_MIN_BUFFER_SIZE K) (isHeaderThere * headerSize r)
      in if recordedBytesDataLine r = 0 then None
         else
           let maxRecordedDataLines =
                 (maxBufferSize - isHeaderThere * headerSize r) div recordedBytesDataLine r;
               limits = isHeaderThere * headerSize r + maxRecordedDataLines * recordedBytesDataLine r;
               opened = device_open (MemoryDevice_new limits);
               r1 = r\<lparr>flows := closed @ [snd opened], recordedBytesLimits := limits\<rparr>
           in Some (fst opened, if fst opened = SUCCESS then r1\<lparr>recordedBytes := 0\<rparr> else r1))"

text \<open>
  The time of a data line, \<^verbatim>\<open>static_cast<int64_t>(std::round(timestamp * timeUnitInv_))\<close>.
  The product is rounded to a double first; \<^verbatim>\<open>std::round\<close> then rounds half away from zero,
  exactly. The conversion of its result to \<^verbatim>\<open>int64_t\<close> is defined only for a finite value in
  the range of the type: the model has no result elsewhere.
\<close>

definition c_round :: "real \<Rightarrow> int" where
  "c_round x = (if 0 \<le> x then \<lfloor>x + 1 / 2\<rfloor> else - \<lfloor>- x + 1 / 2\<rfloor>)"

definition quantizeTime :: "float64 \<Rightarrow> float64 \<Rightarrow> 64 word option" where
  "quantizeTime timestamp unitInv =
     (case f_mul timestamp unitInv of
        Finite x \<Rightarrow>
          if - (2 ^ 63) \<le> c_round x \<and> c_round x < 2 ^ 63 then Some (word_of_int (c_round x))
          else None
      | _ \<Rightarrow> None)"

text \<open>
  \<^verbatim>\<open>flushDataSnapshot\<close>: a new chunk when the byte counter has reached the limit, then the
  token, the time, the integers and the floats, with the return codes of the writes ignored
  as in the source, and the counter advanced by the size of a data line.
\<close>

definition writeValues :: "64 word registry \<Rightarrow> MemoryDevice \<Rightarrow> MemoryDevice" where
  "writeValues registry dev =
     fold (\<lambda>keyValue d. snd (device_write (to_bytes (snd keyValue)) d)) registry dev"

definition flushDataSnapshot ::
  "TelemetryConstants \<Rightarrow> TelemetryData \<Rightarrow> float64 \<Rightarrow> TelemetryRecorder
     \<Rightarrow> (hresult_t \<times> TelemetryRecorder) option" where
  "flushDataSnapshot K telemetryData timestamp r =
     (case (if recordedBytes r = recordedBytesLimits r then createNewChunk K r
            else Some (SUCCESS, r)) of
        None \<Rightarrow> None
      | Some (returnCode, r1) \<Rightarrow>
          if returnCode \<noteq> SUCCESS then Some (returnCode, r1)
          else if flows r1 = [] then None
          else
            (case quantizeTime timestamp (timeUnitInv r1) of
               None \<Rightarrow> None
             | Some t \<Rightarrow>
                 let write_line = (\<lambda>dev.
                       writeValues (floatsRegistry telemetryData)
                         (writeValues (integersRegistry telemetryData)
                           (snd (device_write (to_bytes t)
                             (snd (device_write (START_LINE_TOKEN K) dev))))))
                 in Some (SUCCESS,
                      r1\<lparr>flows := update_back write_line (flows r1),
                         recordedBytes := recordedBytes r1 + recordedBytesDataLine r1\<rparr>)))"

text \<open>
  \<^verbatim>\<open>initialize\<close>. The header is what \<^verbatim>\<open>TelemetryData::formatHeader\<close> produces; that function
  and \<^verbatim>\<open>registerConstant\<close> are not among the sources, so the header is an argument of the
  model and the registration of the time unit constant is left to the caller.
\<close>

definition initialize ::
  "TelemetryConstants \<Rightarrow> TelemetryData \<Rightarrow> float64 \<Rightarrow> bytes \<Rightarrow> TelemetryRecorder
     \<Rightarrow> (hresult_t \<times> TelemetryRecorder) option" where
  "initialize K telemetryData timeUnit header r =
     (let r0 = r\<lparr>timeUnitInv := f_div (Finite 1.0) timeUnit\<rparr>
      in if isInitialized r then Some (ERROR_INIT_FAILED, r0)
         else
           let r1 = r0\<lparr>flows := [],
                      integerSectionSize := 8 * length (integersRegistry telemetryData),
                      floatSectionSize := 8 * length (floatsRegistry telemetryData),
                      recordedBytesDataLine :=
                        8 * length (integersRegistry telemetryData) +
                        8 * length (floatsRegistry telemetryData) +
                        (length (START_LINE_TOKEN K) + 8),
                      headerSize := length header\<rparr>
           in case createNewChunk K r1 of
                None \<Rightarrow> None
              | Some (returnCode, r2) \<Rightarrow>
                  if returnCode \<noteq> SUCCESS then Some (returnCode, r2)
                  else
                    (case flows r2 of
                       [] \<Rightarrow> None
                     | flow0 # rest \<Rightarrow>
                         let written = device_write header flow0;
                             r3 = r2\<lparr>flows := snd written # rest\<rparr>
                         in Some (fst written,
                              if fst written = SUCCESS
                              then r3\<lparr>recordedBytes := headerSize r3, isInitialized := True\<rparr>
                              else r3)))"

text \<open>\<^verbatim>\<open>getIsInitialized\<close> and \<^verbatim>\<open>reset\<close>.\<close>

definition getIsInitialized :: "TelemetryRecorder \<Rightarrow> bool" where
  "getIsInitialized r = isInitialized r"

definition TelemetryRecorder_reset :: "TelemetryRecorder \<Rightarrow> TelemetryRecorder" where
  "TelemetryRecorder_reset r = r\<lparr>flows := update_back device_close (flows r), isInitialized := False\<rparr>"



subsection \<open>The log parser\<close>

text \<open>
  \<^verbatim>\<open>parseLogDataRaw\<close>. The data matrices are lists of columns, one per data line. A result
  of \<^verbatim>\<open>None\<close> stands for a run that reads outside a buffer or leaves a value
  indeterminate: an iterator moved beyond the end of the header, a string read without a
  terminating zero, a data line read past the allocated columns or from fewer bytes than a line
  has.
\<close>

record logData_t =
  version :: "32 word"
  constants :: "(bytes \<times> bytes) list"
  fieldnames :: "bytes list"
  timeUnit :: float64
  timestamps :: "64 word list"
  intData :: "64 word list list"
  floatData :: "64 word list list"

definition emptyLogData :: logData_t where
  "emptyLogData =
     \<lparr>version = 0, constants = [], fieldnames = [], timeUnit = Finite 0, timestamps = [],
      intData = [], floatData = []\<rparr>"

text \<open>
  \<^verbatim>\<open>searchBytes buf first lst needle\<close> is \<^verbatim>\<open>std::search\<close> on the range from \<^verbatim>\<open>first\<close> to
  \<^verbatim>\<open>lst\<close>: the position of the first occurrence of the needle, or \<^verbatim>\<open>lst\<close>.
\<close>

fun search_from :: "nat \<Rightarrow> bytes \<Rightarrow> bytes \<Rightarrow> nat" where
  "search_from i [] needle = i"
| "search_from i (x # xs) needle =
     (if take (length needle) (x # xs) = needle then i else search_from (Suc i) xs needle)"

definition searchBytes :: "bytes \<Rightarrow> nat \<Rightarrow> nat \<Rightarrow> bytes \<Rightarrow> nat" where
  "searchBytes buf first lst needle =
     search_from first (take (lst - first) (drop first buf)) needle"

definition slice :: "bytes \<Rightarrow> nat \<Rightarrow> nat \<Rightarrow> bytes" where
  "slice buf first lst = take (lst - first) (drop first buf)"

lemma search_from_bounds: "i \<le> search_from i hay needle \<and> search_from i hay needle \<le> i + length hay"
proof (induction hay arbitrary: i)
  case Nil
  show ?case by simp
next
  case (Cons x xs)
  from Cons [of "Suc i"] show ?case by simp
qed

lemma searchBytes_bounds:
  "first \<le> lst \<Longrightarrow> lst \<le> length buf \<Longrightarrow>
     first \<le> searchBytes buf first lst needle \<and> searchBytes buf first lst needle \<le> lst"
  using search_from_bounds [of first "take (lst - first) (drop first buf)" needle]
  by (auto simp: searchBytes_def min_def split: if_splits)

lemma parseConstants_progress:
  assumes "\<not> length buf < pos"
    and "searchBytes buf pos (length buf) tok \<noteq> length buf"
    and "\<not> (searchBytes buf pos (length buf) tok = 0 \<or>
            searchBytes buf pos (length buf) tok - 1 <
              searchBytes buf pos (searchBytes buf pos (length buf) tok) delim + length delim)"
  shows "length buf - (searchBytes buf pos (length buf) tok + length tok) < length buf - pos"
proof -
  let ?n = "searchBytes buf pos (length buf) tok"
  from assms(1) have le: "pos \<le> length buf" by simp
  from searchBytes_bounds [OF le, of buf tok] have n: "pos \<le> ?n" "?n \<le> length buf"
    by simp_all
  from searchBytes_bounds [OF n, of delim] have "pos \<le> searchBytes buf pos ?n delim"
    by simp
  with assms(3) have "pos < ?n" by arith
  with n assms(2) show ?thesis by arith
qed

function parseConstants ::
  "TelemetryConstants \<Rightarrow> bytes \<Rightarrow> nat \<Rightarrow> ((bytes \<times> bytes) list \<times> nat) option" where
  "parseConstants K buf pos =
     (if length buf < pos then None
      else
        let posNext0 = searchBytes buf pos (length buf) (START_LINE_TOKEN K);
            isLastConstant = (posNext0 = length buf);
            posNext = (if isLastConstant
                       then searchBytes buf pos (length buf) (START_COLUMNS K) else posNext0);
            posDelimiter = searchBytes buf pos posNext (TELEMETRY_CONSTANT_DELIMITER K)
        in if posNext = 0 \<or> posNext - 1 < posDelimiter + length (TELEMETRY_CONSTANT_DELIMITER K)
           then None
           else
             let key = slice buf pos posDelimiter;
                 val = slice buf (posDelimiter + length (TELEMETRY_CONSTANT_DELIMITER K))
                             (posNext - 1)
             in if isLastConstant
                then Some ([(key, val)], posNext + length (START_COLUMNS K) + 1)
                else map_option (\<lambda>(cs, p). ((key, val) # cs, p))
                       (parseConstants K buf (posNext + length (START_LINE_TOKEN K))))"
  by pat_completeness auto

termination
  by (relation "measure (\<lambda>(K, buf, pos). length buf - pos)")
    (auto intro!: parseConstants_progress)

function parseFieldnames :: "TelemetryConstants \<Rightarrow> bytes \<Rightarrow> nat \<Rightarrow> bytes list option" where
  "parseFieldnames K buf pos =
     (if length buf \<le> pos then None
      else
        let fieldname = takeWhile (\<lambda>b. b \<noteq> 0) (drop pos buf)
        in if length buf \<le> pos + length fieldname then None
           else if fieldname = START_DATA K then Some []
           else map_option ((#) fieldname) (parseFieldnames K buf (pos + length fieldname + 1)))"
  by pat_completeness auto

termination
  by (relation "measure (\<lambda>(K, buf, pos). length buf - pos)") auto

definition parseHeader ::
  "TelemetryConstants \<Rightarrow> bytes \<Rightarrow> ((bytes \<times> bytes) list \<times> bytes list) option" where
  "parseHeader K headerCharBuffer =
     (case parseConstants K headerCharBuffer
             (length (START_CONSTANTS K) + 1 + length (START_LINE_TOKEN K)) of
        None \<Rightarrow> None
      | Some (cs, posHeader) \<Rightarrow>
          (case parseFieldnames K headerCharBuffer posHeader of
             None \<Rightarrow> None
           | Some names \<Rightarrow> Some (cs, names)))"

fun lookupTimeUnit :: "TelemetryConstants \<Rightarrow> (bytes \<times> bytes) list \<Rightarrow> float64" where
  "lookupTimeUnit K [] = STEPPER_MIN_TIMESTEP K"
| "lookupTimeUnit K ((key, val) # rest) =
     (if key = TIME_UNIT K then readFloat K val else lookupTimeUnit K rest)"

text \<open>
  The version flag and the header of the first chunk. \<^verbatim>\<open>Inl\<close> is the early return of a
  version mismatch, which leaves the cursor behind the four bytes read.
\<close>

definition readHeader ::
  "TelemetryConstants \<Rightarrow> nat \<Rightarrow> logData_t \<Rightarrow> MemoryDevice
     \<Rightarrow> (logData_t \<times> MemoryDevice + logData_t \<times> MemoryDevice) option" where
  "readHeader K headerSize' logData flow =
     (if bytesAvailable flow < 4 then None
      else
        let versionRead = readData 4 flow;
            version' = (of_bytes (fst versionRead) :: 32 word);
            flow1 = snd versionRead
        in if version' \<noteq> TELEMETRY_VERSION K then Some (Inl (logData, flow1))
           else if headerSize' < currentPos flow1 then None
           else
             let headerRead = readData (headerSize' - currentPos flow1) flow1;
                 headerCharBuffer = fst headerRead @
                   replicate (headerSize' - currentPos flow1 - length (fst headerRead)) 0
             in case parseHeader K headerCharBuffer of
                  None \<Rightarrow> None
                | Some (cs, names) \<Rightarrow>
                    Some (Inr (logData\<lparr>version := version', constants := constants logData @ cs,
                                      fieldnames := fieldnames logData @ names\<rparr>,
                               snd headerRead)))"

text \<open>
  One data line, or the end of the data of a chunk when the byte read is not the first byte of
  the start-of-line token. \<^verbatim>\<open>room\<close> tells whether a column is left for the line.
\<close>

definition startLineTokenFirst :: "TelemetryConstants \<Rightarrow> byte" where
  "startLineTokenFirst K = (case START_LINE_TOKEN K of [] \<Rightarrow> 0 | c # _ \<Rightarrow> c)"

datatype dataLine = EndOfData | DataLine "64 word" "64 word list" "64 word list"

definition readDataLine ::
  "TelemetryConstants \<Rightarrow> nat \<Rightarrow> nat \<Rightarrow> bool \<Rightarrow> MemoryDevice \<Rightarrow> (dataLine \<times> MemoryDevice) option" where
  "readDataLine K integerSectionSize' floatSectionSize' room flow =
     (let tokenRead = readData 1 flow;
          flow1 = snd tokenRead
      in if fst tokenRead \<noteq> [startLineTokenFirst K] then Some (EndOfData, flow1)
         else
           let flow2 = snd (device_seek (currentPos flow1 + length (START_LINE_TOKEN K) - 1) flow1)
           in if \<not> room then None
              else if bytesAvailable flow2 < 8 + integerSectionSize' + floatSectionSize' then None
              else
                let timeRead = readData 8 flow2;
                    intRead = readData integerSectionSize' (snd timeRead);
                    floatRead = readData floatSectionSize' (snd intRead)
                in Some (DataLine (of_bytes (fst timeRead)) (words64 (fst intRead))
                           (words64 (fst floatRead)),
                         snd floatRead))"

lemma length_buffer_readData [simp]: "length (buffer (snd (readData n dev))) = length (buffer dev)"
  by (simp add: readData_def Let_def)

lemma currentPos_readData_ge: "currentPos dev \<le> currentPos (snd (readData n dev))"
  by (simp add: readData_def Let_def)

lemma length_buffer_seek [simp]: "length (buffer (snd (device_seek p dev))) = length (buffer dev)"
  by (simp add: device_seek_def)

lemma readData_full:
  "n \<le> bytesAvailable dev \<Longrightarrow> currentPos (snd (readData n dev)) = currentPos dev + n"
  by (simp add: readData_def Let_def)

lemma readData_one_nonempty:
  "fst (readData 1 dev) = [b] \<Longrightarrow> currentPos (snd (readData 1 dev)) = Suc (currentPos dev)"
  by (auto simp: readData_def Let_def bytesAvailable_def min_def split: if_splits)

lemma readDataLine_progress:
  assumes "readDataLine K isz fsz room flow = Some (DataLine t is fs, flow')"
  shows "length (buffer flow') = length (buffer flow) \<and> currentPos flow < currentPos flow'"
proof -
  let ?flow1 = "snd (readData 1 flow)"
  let ?flow2 = "snd (device_seek (currentPos ?flow1 + length (START_LINE_TOKEN K) - 1) ?flow1)"
  let ?ft = "snd (readData 8 ?flow2)"
  let ?fi = "snd (readData isz ?ft)"
  from assms have tok: "fst (readData 1 flow) = [startLineTokenFirst K]"
    and avail: "\<not> bytesAvailable ?flow2 < 8 + isz + fsz"
    and res: "flow' = snd (readData fsz ?fi)"
    by (auto simp: readDataLine_def Let_def split: if_splits)
  from readData_one_nonempty [OF tok] have p1: "currentPos ?flow1 = Suc (currentPos flow)" .
  have p2: "currentPos flow \<le> currentPos ?flow2"
    using p1 by (simp add: device_seek_def)
  from avail have "8 \<le> bytesAvailable ?flow2" by simp
  from readData_full [OF this] have p3: "currentPos ?ft = currentPos ?flow2 + 8" .
  have "currentPos ?ft \<le> currentPos ?fi" by (rule currentPos_readData_ge)
  also have "\<dots> \<le> currentPos flow'" unfolding res by (rule currentPos_readData_ge)
  finally have "currentPos flow < currentPos flow'" using p2 p3 by simp
  moreover have "length (buffer flow') = length (buffer flow)"
    unfolding res by simp
  ultimately show ?thesis by simp
qed

function readDataLines ::
  "TelemetryConstants \<Rightarrow> nat \<Rightarrow> nat \<Rightarrow> nat \<Rightarrow> logData_t \<Rightarrow> MemoryDevice
     \<Rightarrow> (logData_t \<times> MemoryDevice) option" where
  "readDataLines K integerSectionSize' floatSectionSize' numData logData flow =
     (if 0 < bytesAvailable flow then
        (case readDataLine K integerSectionSize' floatSectionSize'
                (length (timestamps logData) < numData) flow of
           None \<Rightarrow> None
         | Some (EndOfData, flow') \<Rightarrow> Some (logData, flow')
         | Some (DataLine t ints floats, flow') \<Rightarrow>
             readDataLines K integerSectionSize' floatSectionSize' numData
               (logData\<lparr>timestamps := timestamps logData @ [t],
                        intData := intData logData @ [ints],
                        floatData := floatData logData @ [floats]\<rparr>) flow')
      else Some (logData, flow))"
  by pat_completeness auto

termination
proof (relation "measure (\<lambda>(K, isz, fsz, numData, logData, flow). bytesAvailable flow)", goal_cases)
  case 1
  show ?case by simp
next
  case (2 K isz fsz numData logData flow x2 line flow' t ints floats)
  then have "readDataLine K isz fsz (length (timestamps logData) < numData) flow =
      Some (DataLine t ints floats, flow')"
    by simp
  from readDataLine_progress [OF this] 2(1) show ?case
    by (auto simp: bytesAvailable_def)
qed

declare readDataLines.simps [simp del]

fun parseFlows ::
  "TelemetryConstants \<Rightarrow> nat \<Rightarrow> nat \<Rightarrow> nat \<Rightarrow> bool \<Rightarrow> logData_t \<Rightarrow> MemoryDevice list
     \<Rightarrow> (hresult_t \<times> logData_t \<times> MemoryDevice list) option" where
  "parseFlows K integerSectionSize' floatSectionSize' headerSize' isReadingHeaderDone logData [] =
     Some (SUCCESS, logData, [])"
| "parseFlows K integerSectionSize' floatSectionSize' headerSize' isReadingHeaderDone logData
     (flow # rest) =
     (let pos_old = currentPos flow;
          flow0 = snd (device_seek 0 flow)
      in case (if isReadingHeaderDone then Some (Inr (logData, flow0))
               else readHeader K headerSize' logData flow0) of
           None \<Rightarrow> None
         | Some (Inl (logData1, flow1)) \<Rightarrow> Some (ERROR_BAD_INPUT, logData1, flow1 # rest)
         | Some (Inr (logData1, flow1)) \<Rightarrow>
             let logData2 = logData1\<lparr>timeUnit := lookupTimeUnit K (constants logData1)\<rparr>;
                 recordedBytesDataLine' =
                   length (START_LINE_TOKEN K) + 8 + integerSectionSize' + floatSectionSize';
                 numData = length (timestamps logData2) +
                             bytesAvailable flow1 div recordedBytesDataLine'
             in if integerSectionSize' mod 8 \<noteq> 0 \<or> floatSectionSize' mod 8 \<noteq> 0 then None
                else
                  (case readDataLines K integerSectionSize' floatSectionSize' numData logData2 flow1 of
                     None \<Rightarrow> None
                   | Some (logData3, flow2) \<Rightarrow>
                       (case parseFlows K integerSectionSize' floatSectionSize' headerSize' True
                               logData3 rest of
                          None \<Rightarrow> None
                        | Some (returnCode, logData4, rest') \<Rightarrow>
                            Some (returnCode, logData4,
                                  snd (device_seek pos_old flow2) # rest'))))"

definition parseLogDataRaw ::
  "TelemetryConstants \<Rightarrow> MemoryDevice list \<Rightarrow> nat \<Rightarrow> nat \<Rightarrow> nat
     \<Rightarrow> (hresult_t \<times> logData_t \<times> MemoryDevice list) option" where
  "parseLogDataRaw K flows' integerSectionSize' floatSectionSize' headerSize' =
     parseFlows K integerSectionSize' floatSectionSize' headerSize' False emptyLogData flows'"

definition getLog ::
  "TelemetryConstants \<Rightarrow> TelemetryRecorder \<Rightarrow> (hresult_t \<times> logData_t \<times> TelemetryRecorder) option" where
  "getLog K r =
     (case parseLogDataRaw K (flows r) (integerSectionSize r) (floatSectionSize r) (headerSize r) of
        None \<Rightarrow> None
      | Some (returnCode, logData, flows') \<Rightarrow> Some (returnCode, logData, r\<lparr>flows := flows'\<rparr>))"

subsection \<open>Notions for stating the properties of the recorder\<close>

text \<open>
  What a data line holds and how it is encoded; a chunk described by its header, its lines
  and its spare rows; the layout that the recorder maintains; a recording session as a list of
  snapshots; the alignment of a chunk on rows; and the constants, header and recorder states
  of two small sessions, one whose data line fits into a chunk and one whose data line is
  longer than \<^verbatim>\<open>TELEMETRY_MIN_BUFFER_SIZE\<close>.
\<close>

definition wordsBytes :: "64 word list \<Rightarrow> bytes" where
  "wordsBytes ws = concat (map to_bytes ws)"

definition valuesBytes :: "64 word registry \<Rightarrow> bytes" where
  "valuesBytes registry = wordsBytes (map snd registry)"

definition encodeLine :: "TelemetryConstants \<Rightarrow> 64 word \<Rightarrow> TelemetryData \<Rightarrow> bytes" where
  "encodeLine K t telemetryData =
     START_LINE_TOKEN K @ to_bytes t @ valuesBytes (integersRegistry telemetryData) @
       valuesBytes (floatsRegistry telemetryData)"

type_synonym line = "64 word \<times> 64 word list \<times> 64 word list"

fun lineBytes :: "TelemetryConstants \<Rightarrow> line \<Rightarrow> bytes" where
  "lineBytes K (t, ints, floats) =
     START_LINE_TOKEN K @ to_bytes t @ wordsBytes ints @ wordsBytes floats"

fun lineFits :: "nat \<Rightarrow> nat \<Rightarrow> line \<Rightarrow> bool" where
  "lineFits isz fsz (t, ints, floats) = (8 * length ints = isz \<and> 8 * length floats = fsz)"

definition snapshotLine :: "64 word \<Rightarrow> TelemetryData \<Rightarrow> line" where
  "snapshotLine t d = (t, map snd (integersRegistry d), map snd (floatsRegistry d))"

definition appendLines :: "line list \<Rightarrow> logData_t \<Rightarrow> logData_t" where
  "appendLines lines logData =
     logData\<lparr>timestamps := timestamps logData @ map fst lines,
             intData := intData logData @ map (\<lambda>l. fst (snd l)) lines,
             floatData := floatData logData @ map (\<lambda>l. snd (snd l)) lines\<rparr>"

datatype chunk = Chunk (chunkHeader: bytes) (chunkLines: "line list") (chunkSpare: nat) (chunkOpen: bool)

definition chunkDevice :: "TelemetryConstants \<Rightarrow> nat \<Rightarrow> chunk \<Rightarrow> MemoryDevice" where
  "chunkDevice K rowSize c =
     \<lparr>buffer = chunkHeader c @ concat (map (lineBytes K) (chunkLines c)) @
                replicate (chunkSpare c * rowSize) 0,
      currentPos = length (chunkHeader c @ concat (map (lineBytes K) (chunkLines c))),
      isOpen = chunkOpen c\<rparr>"

definition headerDecodes ::
  "TelemetryConstants \<Rightarrow> bytes \<Rightarrow> (bytes \<times> bytes) list \<Rightarrow> bytes list \<Rightarrow> bool" where
  "headerDecodes K header cs names =
     (4 \<le> length header \<and> of_bytes (take 4 header) = TELEMETRY_VERSION K \<and>
      parseHeader K (drop 4 header) = Some (cs, names))"

definition laidOut ::
  "TelemetryConstants \<Rightarrow> bytes \<Rightarrow> TelemetryRecorder \<Rightarrow> chunk list \<Rightarrow> bool" where
  "laidOut K header r chunks =
     (flows r = map (chunkDevice K (recordedBytesDataLine r)) chunks \<and>
      map chunkHeader chunks = header # replicate (length chunks - 1) [] \<and>
      list_all (\<lambda>c. list_all (lineFits (integerSectionSize r) (floatSectionSize r)) (chunkLines c))
        chunks \<and>
      headerSize r = length header \<and>
      recordedBytesDataLine r =
        length (START_LINE_TOKEN K) + 8 + integerSectionSize r + floatSectionSize r \<and>
      integerSectionSize r mod 8 = 0 \<and> floatSectionSize r mod 8 = 0 \<and>
      recordedBytesLimits r = length (buffer (last (flows r))))"

definition represents ::
  "TelemetryConstants \<Rightarrow> bytes \<Rightarrow> TelemetryRecorder \<Rightarrow> chunk list \<Rightarrow> bool" where
  "represents K header r chunks =
     (laidOut K header r chunks \<and> recordedBytes r = currentPos (last (flows r)))"

definition sameConfig :: "TelemetryRecorder \<Rightarrow> TelemetryRecorder \<Rightarrow> bool" where
  "sameConfig r r' =
     (integerSectionSize r' = integerSectionSize r \<and> floatSectionSize r' = floatSectionSize r \<and>
      recordedBytesDataLine r' = recordedBytesDataLine r \<and> headerSize r' = headerSize r \<and>
      timeUnitInv r' = timeUnitInv r \<and> isInitialized r' = isInitialized r)"

fun flushAll ::
  "TelemetryConstants \<Rightarrow> (TelemetryData \<times> float64) list \<Rightarrow> TelemetryRecorder
     \<Rightarrow> TelemetryRecorder option" where
  "flushAll K [] r = Some r"
| "flushAll K ((d, t) # rest) r =
     (case flushDataSnapshot K d t r of
        None \<Rightarrow> None
      | Some (returnCode, r') \<Rightarrow> flushAll K rest r')"

fun snapshotOk :: "TelemetryRecorder \<Rightarrow> TelemetryData \<times> float64 \<Rightarrow> bool" where
  "snapshotOk r (d, t) =
     (8 * length (integersRegistry d) = integerSectionSize r \<and>
      8 * length (floatsRegistry d) = floatSectionSize r \<and>
      quantizeTime t (timeUnitInv r) \<noteq> None)"

fun recordedLine :: "TelemetryRecorder \<Rightarrow> TelemetryData \<times> float64 \<Rightarrow> line" where
  "recordedLine r (d, t) = snapshotLine (the (quantizeTime t (timeUnitInv r))) d"

definition headerLog ::
  "TelemetryConstants \<Rightarrow> (bytes \<times> bytes) list \<Rightarrow> bytes list \<Rightarrow> logData_t" where
  "headerLog K cs names =
     emptyLogData\<lparr>version := TELEMETRY_VERSION K, constants := cs, fieldnames := names,
                  timeUnit := lookupTimeUnit K cs\<rparr>"

fun timeOk :: "TelemetryRecorder \<Rightarrow> TelemetryData \<times> float64 \<Rightarrow> bool" where
  "timeOk r (d, t) = (quantizeTime t (timeUnitInv r) \<noteq> None)"

text \<open>
  The small sessions use one-byte tokens: \<^verbatim>\<open>C\<close> for the start of the constants, \<^verbatim>\<open>K\<close> for
  the start of the columns, \<^verbatim>\<open>D\<close> for the start of the data, \<^verbatim>\<open>L\<close> for the start of a line,
  \<^verbatim>\<open>=\<close> as delimiter and \<^verbatim>\<open>u\<close> as name of the time unit; chunks have 32 bytes. The header
  holds version 1, the constant \<^verbatim>\<open>u=1\<close> and the field name \<^verbatim>\<open>t\<close>.
\<close>

abbreviation exampleK :: TelemetryConstants where
  "exampleK \<equiv> \<lparr>TELEMETRY_VERSION = 1, TELEMETRY_MIN_BUFFER_SIZE = 32, START_CONSTANTS = [0x43],
     START_COLUMNS = [0x4B], START_DATA = [0x44], START_LINE_TOKEN = [0x4C],
     TELEMETRY_CONSTANT_DELIMITER = [0x3D], TIME_UNIT = [0x75],
     STEPPER_MIN_TIMESTEP = Finite 1, readFloat = (\<lambda>s. Finite 1)\<rparr>"

abbreviation exampleHeader :: bytes where
  "exampleHeader \<equiv> [1, 0, 0, 0, 0x43, 0, 0x4C, 0x75, 0x3D, 0x31, 0, 0x4B, 0, 0x74, 0, 0x44, 0]"

abbreviation freshRecorder :: TelemetryRecorder where
  "freshRecorder \<equiv> \<lparr>flows = [], isInitialized = False, recordedBytesLimits = 0, recordedBytesDataLine = 0,
     recordedBytes = 0, headerSize = 0, integerSectionSize = 0, floatSectionSize = 0,
     timeUnitInv = Finite 1\<rparr>"

abbreviation oneInt :: "64 word \<Rightarrow> TelemetryData" where
  "oneInt v \<equiv> \<lparr>constantsRegistry = [], integersRegistry = [(''i'', v)], floatsRegistry = [],
     isRegisteringAvailable = False\<rparr>"

abbreviation threeInts :: TelemetryData where
  "threeInts \<equiv> \<lparr>constantsRegistry = [], integersRegistry = [(''i'', 7), (''j'', 8), (''k'', 9)],
     floatsRegistry = [], isRegisteringAvailable = False\<rparr>"

abbreviation smallStart :: TelemetryRecorder where
  "smallStart \<equiv> \<lparr>flows = [\<lparr>buffer = exampleHeader, currentPos = 17, isOpen = True\<rparr>],
      isInitialized = True, recordedBytesLimits = 17, recordedBytesDataLine = 17,
      recordedBytes = 17, headerSize = 17, integerSectionSize = 8, floatSectionSize = 0,
      timeUnitInv = Finite 1\<rparr>"

abbreviation bigStart :: TelemetryRecorder where
  "bigStart \<equiv> \<lparr>flows = [\<lparr>buffer = exampleHeader, currentPos = 17, isOpen = True\<rparr>],
      isInitialized = True, recordedBytesLimits = 17, recordedBytesDataLine = 33,
      recordedBytes = 17, headerSize = 17, integerSectionSize = 24, floatSectionSize = 0,
      timeUnitInv = Finite 1\<rparr>"

abbreviation bigOneRow :: TelemetryRecorder where
  "bigOneRow \<equiv> \<lparr>flows = [\<lparr>buffer = exampleHeader, currentPos = 17, isOpen = False\<rparr>,
                     \<lparr>buffer = [], currentPos = 0, isOpen = True\<rparr>],
      isInitialized = True, recordedBytesLimits = 0, recordedBytesDataLine = 33,
      recordedBytes = 33, headerSize = 17, integerSectionSize = 24, floatSectionSize = 0,
      timeUnitInv = Finite 1\<rparr>"

definition chunkAligned :: "nat \<Rightarrow> nat \<Rightarrow> MemoryDevice \<Rightarrow> bool" where
  "chunkAligned headerContribution rowSize dev =
     (headerContribution \<le> currentPos dev \<and> currentPos dev \<le> length (buffer dev) \<and>
      (currentPos dev - headerContribution) mod rowSize = 0 \<and>
      (length (buffer dev) - headerContribution) mod rowSize = 0)"

fun flowsAligned :: "nat \<Rightarrow> nat \<Rightarrow> MemoryDevice list \<Rightarrow> bool" where
  "flowsAligned headerBytes rowSize [] = False"
| "flowsAligned headerBytes rowSize (first # rest) =
     (chunkAligned headerBytes rowSize first \<and> list_all (chunkAligned 0 rowSize) rest)"

abbreviation smallTwoRows :: TelemetryRecorder where
  "smallTwoRows \<equiv> \<lparr>flows =
       [\<lparr>buffer = exampleHeader, currentPos = 17, isOpen = False\<rparr>,
        \<lparr>buffer = [0x4C, 5, 0, 0, 0, 0, 0, 0, 0, 7, 0, 0, 0, 0, 0, 0, 0], currentPos = 17,
           isOpen = False\<rparr>,
        \<lparr>buffer = [0x4C, 6, 0, 0, 0, 0, 0, 0, 0, 9, 0, 0, 0, 0, 0, 0, 0], currentPos = 17,
           isOpen = True\<rparr>],
      isInitialized = True, recordedBytesLimits = 17, recordedBytesDataLine = 17,
      recordedBytes = 17, headerSize = 17, integerSectionSize = 8, floatSectionSize = 0,
      timeUnitInv = Finite 1\<rparr>"

abbreviation bigTwoRows :: TelemetryRecorder where
  "bigTwoRows \<equiv> \<lparr>flows = [\<lparr>buffer = exampleHeader, currentPos = 17, isOpen = False\<rparr>,
                     \<lparr>buffer = [], currentPos = 0, isOpen = True\<rparr>],
      isInitialized = True, recordedBytesLimits = 0, recordedBytesDataLine = 33,
      recordedBytes = 66, headerSize = 17, integerSectionSize = 24, floatSectionSize = 0,
      timeUnitInv = Finite 1\<rparr>"




definition sampleTime :: real where
  "sampleTime = 5404319552844595 / 2 ^ 55"

section \<open>Properties of rounding\<close>

text \<open>
  Rounding to the nearest integer and the binade of a number; then the three facts about
  \<^verbatim>\<open>rnd_real\<close> that the properties of the program rest on: its error is at most half a
  quantum, a number with a significand of 53 bits is left as it is, and rounding is monotone.
\<close>

lemma rnd_even_of_int [simp]: "rnd_even (of_int n) = n"
  by (simp add: rnd_even_def)

lemma rnd_even_0 [simp]: "rnd_even 0 = 0"
  by (simp add: rnd_even_def)

lemma rnd_even_bounds: "x - 1 / 2 \<le> of_int (rnd_even x) \<and> of_int (rnd_even x) \<le> x + 1 / 2"
  unfolding rnd_even_def Let_def by (auto; linarith)

lemma rnd_even_floor: "\<lfloor>x\<rfloor> \<le> rnd_even x \<and> rnd_even x \<le> \<lfloor>x\<rfloor> + 1"
  unfolding rnd_even_def Let_def by auto

lemma rnd_even_mono:
  assumes "x \<le> y"
  shows "rnd_even x \<le> rnd_even y"
proof (cases "\<lfloor>x\<rfloor> = \<lfloor>y\<rfloor>")
  case True
  with assms show ?thesis
    unfolding rnd_even_def Let_def by auto
next
  case False
  with assms have "\<lfloor>x\<rfloor> < \<lfloor>y\<rfloor>"
    using floor_mono [OF assms] by simp
  with rnd_even_floor [of x] rnd_even_floor [of y] show ?thesis by simp
qed

lemma rnd_even_minus: "rnd_even (- x) = - rnd_even x"
proof (cases "x \<in> \<int>")
  case True
  then obtain n where "x = of_int n" by (auto elim: Ints_cases)
  then show ?thesis by (simp flip: of_int_minus)
next
  case False
  then have ne: "x \<noteq> of_int \<lfloor>x\<rfloor>"
    by (metis Ints_of_int)
  then have fl: "\<lfloor>- x\<rfloor> = - \<lfloor>x\<rfloor> - 1"
    by (simp add: floor_minus ceiling_altdef)
  from ne have "x - of_int \<lfloor>x\<rfloor> \<noteq> 0" by simp
  then show ?thesis
    unfolding rnd_even_def Let_def fl by (auto simp: field_simps)
qed

lemma binade_from_range: "e \<le> 1023 \<Longrightarrow> e \<le> binade_from e a \<and> binade_from e a \<le> 1023"
proof (induction e a rule: binade_from.induct)
  case (1 e a)
  show ?case
  proof (cases "1023 \<le> e \<or> a < 2 powi (e + 1)")
    case True
    with "1.prems" show ?thesis by (subst binade_from.simps, subst binade_from.simps) simp
  next
    case False
    with "1.IH" have "e + 1 \<le> binade_from (e + 1) a \<and> binade_from (e + 1) a \<le> 1023" by simp
    with False show ?thesis by (subst binade_from.simps, subst binade_from.simps) simp
  qed
qed

lemma binade_from_upper:
  "binade_from e a < 1023 \<Longrightarrow> a < 2 powi (binade_from e a + 1)"
proof (induction e a rule: binade_from.induct)
  case (1 e a)
  show ?case
  proof (cases "1023 \<le> e \<or> a < 2 powi (e + 1)")
    case True
    then have eq: "binade_from e a = e" by (subst binade_from.simps) simp
    with "1.prems" True show ?thesis by auto
  next
    case False
    then have eq: "binade_from e a = binade_from (e + 1) a" by (subst binade_from.simps) simp
    with "1.IH" False "1.prems" show ?thesis by simp
  qed
qed

lemma binade_from_lower:
  "e < binade_from e a \<Longrightarrow> 2 powi (binade_from e a) \<le> a"
proof (induction e a rule: binade_from.induct)
  case (1 e a)
  show ?case
  proof (cases "1023 \<le> e \<or> a < 2 powi (e + 1)")
    case True
    then have eq: "binade_from e a = e" by (subst binade_from.simps) simp
    with "1.prems" show ?thesis by simp
  next
    case False
    then have eq: "binade_from e a = binade_from (e + 1) a" by (subst binade_from.simps) simp
    show ?thesis
    proof (cases "e + 1 < binade_from (e + 1) a")
      case True
      with "1.IH" False eq show ?thesis by simp
    next
      case nl: False
      from False have "e + 1 \<le> 1023" by simp
      from binade_from_range [OF this, of a] nl have "binade_from (e + 1) a = e + 1" by simp
      with eq False show ?thesis by simp
    qed
  qed
qed

lemma binade_range: "- 1022 \<le> binade x \<and> binade x \<le> 1023"
  unfolding binade_def using binade_from_range [of "- 1022" "\<bar>x\<bar>"] by simp

lemma binade_upper: "binade x < 1023 \<Longrightarrow> \<bar>x\<bar> < 2 powi (binade x + 1)"
  unfolding binade_def by (rule binade_from_upper)

lemma binade_lower: "- 1022 < binade x \<Longrightarrow> 2 powi (binade x) \<le> \<bar>x\<bar>"
  unfolding binade_def by (rule binade_from_lower)

lemma binadeI:
  assumes "- 1022 \<le> b" "b \<le> 1023"
    and lo: "b = - 1022 \<or> 2 powi b \<le> \<bar>x\<bar>"
    and hi: "b = 1023 \<or> \<bar>x\<bar> < 2 powi (b + 1)"
  shows "binade x = b"
proof (rule ccontr)
  assume ne: "binade x \<noteq> b"
  show False
  proof (cases "binade x < b")
    case True
    with assms(2) have "binade x < 1023" by simp
    from binade_upper [OF this] have "\<bar>x\<bar> < 2 powi (binade x + 1)" .
    also from True have "(2::real) powi (binade x + 1) \<le> 2 powi b"
      by (intro power_int_increasing) simp_all
    finally have "\<bar>x\<bar> < 2 powi b" .
    moreover from True binade_range [of x] have "b \<noteq> - 1022" by simp
    ultimately show False using lo by simp
  next
    case False
    with ne have gt: "b < binade x" by simp
    with assms(1) have "- 1022 < binade x" by simp
    from binade_lower [OF this] have "2 powi (binade x) \<le> \<bar>x\<bar>" .
    moreover from gt have "(2::real) powi (b + 1) \<le> 2 powi (binade x)"
      by (intro power_int_increasing) simp_all
    ultimately have "2 powi (b + 1) \<le> \<bar>x\<bar>" by simp
    moreover from gt binade_range [of x] have "b \<noteq> 1023" by simp
    ultimately show False using hi by simp
  qed
qed

lemma binade_minus [simp]: "binade (- x) = binade x"
  by (simp add: binade_def)

lemma quantum_minus [simp]: "quantum (- x) = quantum x"
  by (simp add: quantum_def)

lemma quantum_pos [simp]: "0 < quantum x"
  by (simp add: quantum_def zero_less_power_int)

lemma quantum_nonneg [simp]: "0 \<le> quantum x"
  by (rule less_imp_le [OF quantum_pos])

lemma quantum_ne0 [simp]: "quantum x \<noteq> 0"
  by (metis quantum_pos less_irrefl)

lemma quantum_mult53: "2 ^ 53 * quantum x = 2 powi (binade x + 1)"
proof -
  have "(2::real) powi (binade x + 1) = 2 powi (53 + (binade x - 52))"
    by (rule arg_cong [where f = "\<lambda>n. 2 powi n"]) simp
  also have "\<dots> = 2 powi 53 * 2 powi (binade x - 52)"
    by (rule power_int_add) simp
  finally show ?thesis by (simp add: quantum_def)
qed

lemma quantum_mult52: "2 ^ 52 * quantum x = 2 powi (binade x)"
proof -
  have "(2::real) powi (binade x) = 2 powi (52 + (binade x - 52))"
    by (rule arg_cong [where f = "\<lambda>n. 2 powi n"]) simp
  also have "\<dots> = 2 powi 52 * 2 powi (binade x - 52)"
    by (rule power_int_add) simp
  finally show ?thesis by (simp add: quantum_def)
qed

lemma rnd_real_minus: "rnd_real (- x) = - rnd_real x"
  by (simp add: rnd_real_def rnd_even_minus)

lemma rnd_real_err: "\<bar>rnd_real x - x\<bar> \<le> quantum x / 2"
proof -
  let ?q = "quantum x"
  from rnd_even_bounds [of "x / ?q"]
  have "\<bar>of_int (rnd_even (x / ?q)) - x / ?q\<bar> \<le> 1 / 2" by linarith
  then have "\<bar>of_int (rnd_even (x / ?q)) - x / ?q\<bar> * ?q \<le> 1 / 2 * ?q"
    by (intro mult_right_mono less_imp_le [OF quantum_pos])
  moreover have "\<bar>of_int (rnd_even (x / ?q)) - x / ?q\<bar> * ?q = \<bar>rnd_real x - x\<bar>"
  proof -
    have "(of_int (rnd_even (x / ?q)) - x / ?q) * ?q = rnd_real x - x"
      using quantum_pos [of x] by (simp add: rnd_real_def left_diff_distrib)
    then have "\<bar>rnd_real x - x\<bar> = \<bar>of_int (rnd_even (x / ?q)) - x / ?q\<bar> * \<bar>?q\<bar>"
      by (simp only: abs_mult [symmetric])
    then show ?thesis by simp
  qed
  ultimately show ?thesis by simp
qed


lemma binade_pow_le: "2 powi (binade x) \<le> max \<bar>x\<bar> (2 powi (- 1022))"
proof (cases "- 1022 < binade x")
  case True
  from binade_lower [OF this] show ?thesis by simp
next
  case False
  with binade_range [of x] have "binade x = - 1022" by simp
  then show ?thesis by simp
qed

lemma quantum_le: "quantum x \<le> 2 powi (- 52) * max \<bar>x\<bar> (2 powi (- 1022))"
proof -
  have "quantum x = 2 powi (- 52) * 2 powi (binade x)"
    by (simp add: quantum_def power_int_diff power_int_minus field_simps)
  also have "\<dots> \<le> 2 powi (- 52) * max \<bar>x\<bar> (2 powi (- 1022))"
    by (intro mult_left_mono binade_pow_le) simp_all
  finally show ?thesis .
qed

text \<open>A multiple of a power of two with a significand of 53 bits is a double: rounding leaves it as it is.\<close>

lemma rnd_real_representable:
  assumes x: "x = of_int m * 2 powi e"
    and m: "\<bar>m\<bar> < 2 ^ 53"
    and e: "- 1074 \<le> e"
  shows "rnd_real x = x"
proof -
  let ?b = "binade x"
  have be: "?b - 52 \<le> e"
  proof (cases "- 1022 < ?b")
    case False
    with binade_range [of x] have "?b = - 1022" by simp
    with e show ?thesis by simp
  next
    case True
    from binade_lower [OF this] have "2 powi ?b \<le> \<bar>x\<bar>" .
    also have "\<bar>x\<bar> = of_int \<bar>m\<bar> * 2 powi e"
      by (simp add: x abs_mult)
    also have "\<dots> < 2 ^ 53 * 2 powi e"
    proof (rule mult_strict_right_mono)
      from m have "real_of_int \<bar>m\<bar> < real_of_int (2 ^ 53)" by (simp only: of_int_less_iff)
      then show "real_of_int \<bar>m\<bar> < 2 ^ 53" by simp
    qed (simp add: zero_less_power_int)
    also have "(2::real) ^ 53 * 2 powi e = 2 powi (53 + e)"
      by (simp add: power_int_add)
    finally have "(2::real) powi ?b < 2 powi (53 + e)" .
    then have "?b < 53 + e"
      by (metis linorder_not_less one_le_numeral power_int_increasing)
    then show ?thesis by simp
  qed
  then obtain k where k: "e - (?b - 52) = int k"
    by (metis diff_ge_0_iff_ge nonneg_int_cases)
  have "x / quantum x = of_int m * (2 powi e / 2 powi (?b - 52))"
    by (simp add: x quantum_def)
  also have "2 powi e / 2 powi (?b - 52) = (2::real) powi (e - (?b - 52))"
    by (simp add: power_int_diff)
  also have "\<dots> = 2 ^ k"
    by (simp only: k power_int_of_nat)
  finally have "x / quantum x = of_int (m * 2 ^ k)" by simp
  then have "rnd_even (x / quantum x) = m * 2 ^ k"
    by (simp only: rnd_even_of_int)
  then have "rnd_real x = of_int (m * 2 ^ k) * quantum x"
    by (simp add: rnd_real_def)
  also have "\<dots> = x"
    using \<open>x / quantum x = of_int (m * 2 ^ k)\<close> quantum_pos [of x]
    by (metis less_irrefl nonzero_divide_eq_eq)
  finally show ?thesis .
qed

lemma rnd_real_0 [simp]: "rnd_real 0 = 0"
  by (simp add: rnd_real_def)

lemma rnd_real_pow2:
  assumes "- 1074 \<le> e"
  shows "rnd_real (2 powi e) = 2 powi e"
  using rnd_real_representable [of "2 powi e" 1 e] assms by simp

text \<open>Rounding is monotone.\<close>

lemma binade_mono_abs:
  assumes "\<bar>x\<bar> \<le> \<bar>y\<bar>"
  shows "binade x \<le> binade y"
proof (rule ccontr)
  assume "\<not> binade x \<le> binade y"
  then have lt: "binade y < binade x" by simp
  with binade_range [of x] have "binade y < 1023" by simp
  from binade_upper [OF this] have "\<bar>y\<bar> < 2 powi (binade y + 1)" .
  also from lt have "(2::real) powi (binade y + 1) \<le> 2 powi (binade x)"
    by (intro power_int_increasing) simp_all
  also from lt binade_range [of y] have "- 1022 < binade x" by simp
  from binade_lower [OF this] have "2 powi (binade x) \<le> \<bar>x\<bar>" .
  finally show False using assms by simp
qed

lemma rnd_real_nonneg: "0 \<le> x \<Longrightarrow> 0 \<le> rnd_real x"
proof -
  assume "0 \<le> x"
  then have "0 \<le> x / quantum x" by simp
  from rnd_even_mono [OF this] have "0 \<le> rnd_even (x / quantum x)"
    using rnd_even_of_int [of 0] by simp
  then show ?thesis by (simp add: rnd_real_def)
qed

lemma rnd_real_mono_pos:
  assumes "0 \<le> x" "x \<le> y"
  shows "rnd_real x \<le> rnd_real y"
proof (cases "binade x = binade y")
  case True
  then have q: "quantum x = quantum y" by (simp add: quantum_def)
  from assms have "x / quantum y \<le> y / quantum y"
    by (intro divide_right_mono) simp_all
  from rnd_even_mono [OF this] show ?thesis
    by (simp add: rnd_real_def q)
next
  case False
  from assms have "\<bar>x\<bar> \<le> \<bar>y\<bar>" by simp
  from binade_mono_abs [OF this] False have lt: "binade x < binade y" by simp
  with binade_range [of y] have "binade x < 1023" by simp
  from binade_upper [OF this] assms have xlt: "x < 2 powi (binade x + 1)" by simp
  have "x / quantum x \<le> 2 ^ 53"
  proof -
    have "x \<le> 2 ^ 53 * quantum x"
      using xlt unfolding quantum_mult53 by simp
    then show ?thesis
      by (simp add: pos_divide_le_eq)
  qed
  then have "x / quantum x \<le> of_int (2 ^ 53)" by simp
  from rnd_even_mono [OF this] have "rnd_even (x / quantum x) \<le> 2 ^ 53"
    by (simp only: rnd_even_of_int)
  then have "real_of_int (rnd_even (x / quantum x)) \<le> 2 ^ 53"
    by (metis of_int_le_iff of_int_numeral of_int_power)
  then have "rnd_real x \<le> 2 ^ 53 * quantum x"
    by (simp add: rnd_real_def)
  also have "\<dots> = 2 powi (binade x + 1)"
    by (rule quantum_mult53)
  also from lt have "\<dots> \<le> 2 powi (binade y)"
    by (intro power_int_increasing) simp_all
  also have "\<dots> \<le> rnd_real y"
  proof -
    from lt binade_range [of x] have "- 1022 < binade y" by simp
    from binade_lower [OF this] assms have yge: "2 powi (binade y) \<le> y" by simp
    have "2 ^ 52 * quantum y \<le> y"
      using yge unfolding quantum_mult52 by simp
    then have "2 ^ 52 \<le> y / quantum y"
      by (simp add: pos_le_divide_eq)
    then have "of_int (2 ^ 52) \<le> y / quantum y" by simp
    from rnd_even_mono [OF this] have "2 ^ 52 \<le> rnd_even (y / quantum y)"
      by (simp only: rnd_even_of_int)
    then have "(2::real) ^ 52 \<le> real_of_int (rnd_even (y / quantum y))"
      by (metis of_int_le_iff of_int_numeral of_int_power)
    then have "2 ^ 52 * quantum y \<le> rnd_real y"
      by (simp add: rnd_real_def)
    moreover have "2 ^ 52 * quantum y = 2 powi (binade y)"
      by (rule quantum_mult52)
    ultimately show ?thesis by simp
  qed
  finally show ?thesis .
qed

lemma rnd_real_mono:
  assumes "x \<le> y"
  shows "rnd_real x \<le> rnd_real y"
proof (cases "0 \<le> x")
  case True
  from True assms show ?thesis by (rule rnd_real_mono_pos)
next
  case False
  show ?thesis
  proof (cases "0 \<le> y")
    case True
    from False have "0 \<le> - x" by simp
    from rnd_real_nonneg [OF this] have "rnd_real x \<le> 0"
      by (simp add: rnd_real_minus)
    with rnd_real_nonneg [OF True] show ?thesis by simp
  next
    case yneg: False
    with assms have "0 \<le> - y" "- y \<le> - x" by simp_all
    from rnd_real_mono_pos [OF this] show ?thesis
      by (simp add: rnd_real_minus)
  qed
qed


lemma rnd_real_le:
  "x \<le> y \<Longrightarrow> rnd_real y = y \<Longrightarrow> rnd_real x \<le> y"
  using rnd_real_mono [of x y] by simp

lemma rnd_real_ge:
  "y \<le> x \<Longrightarrow> rnd_real y = y \<Longrightarrow> y \<le> rnd_real x"
  using rnd_real_mono [of y x] by simp

lemma rnd_real_1 [simp]: "rnd_real 1 = 1"
  using rnd_real_pow2 [of 0] by simp

lemma rnd_real_top: "rnd_real (2 ^ 1024) = 2 ^ 1024"
  using rnd_real_pow2 [of 1024] by simp

lemma rnd_Finite: "\<bar>rnd_real x\<bar> < 2 ^ 1024 \<Longrightarrow> rnd x = Finite (rnd_real x)"
  by (simp add: rnd_def)

lemma rnd_PInf: "2 ^ 1024 \<le> x \<Longrightarrow> rnd x = PInf"
proof -
  assume x: "2 ^ 1024 \<le> x"
  from rnd_real_ge [OF x rnd_real_top] have "2 ^ 1024 \<le> rnd_real x" .
  moreover from x have "0 < x"
    by (rule less_le_trans [rotated]) simp
  ultimately show ?thesis by (simp add: rnd_def f_inf_def)
qed

lemma rnd_within:
  assumes "- b \<le> x" "x \<le> b" "rnd_real b = b" "b < 2 ^ 1024"
  shows "rnd x = Finite (rnd_real x) \<and> - b \<le> rnd_real x \<and> rnd_real x \<le> b"
proof -
  from rnd_real_le [OF assms(2,3)] have u: "rnd_real x \<le> b" .
  from assms(1) have "- x \<le> b" by simp
  from rnd_real_le [OF this assms(3)] have l: "- b \<le> rnd_real x"
    by (simp add: rnd_real_minus)
  from u l assms(4) have "\<bar>rnd_real x\<bar> < 2 ^ 1024" by simp
  with u l show ?thesis by (simp add: rnd_Finite)
qed

lemma rnd_representable:
  assumes "x = of_int m * 2 powi e" "\<bar>m\<bar> < 2 ^ 53" "- 1074 \<le> e" "\<bar>x\<bar> < 2 ^ 1024"
  shows "rnd x = Finite x"
  using rnd_real_representable [OF assms(1-3)] assms(4) by (simp add: rnd_def)

lemma rnd_of_int: "\<bar>n\<bar> < 2 ^ 53 \<Longrightarrow> rnd (of_int n) = Finite (of_int n)"
proof -
  assume n: "\<bar>n\<bar> < 2 ^ 53"
  then have "real_of_int \<bar>n\<bar> < real_of_int (2 ^ 53)"
    by (simp only: of_int_less_iff)
  then have "\<bar>real_of_int n\<bar> < 2 ^ 1024" by simp
  with rnd_representable [of "of_int n" n 0] n show ?thesis by simp
qed

lemma rnd_0 [simp]: "rnd 0 = Finite 0"
  using rnd_of_int [of 0] by simp

lemma rnd_1 [simp]: "rnd 1 = Finite 1"
  using rnd_of_int [of 1] by simp

lemma rnd_numeral [simp]: "numeral k < (2::int) ^ 53 \<Longrightarrow> rnd (numeral k) = Finite (numeral k)"
  using rnd_of_int [of "numeral k"] by simp

lemma rnd_neg_numeral [simp]:
  "numeral k < (2::int) ^ 53 \<Longrightarrow> rnd (- numeral k) = Finite (- numeral k)"
  using rnd_of_int [of "- numeral k"] by simp

lemma rnd_real_rel_err:
  assumes "2 powi (- 1022) \<le> \<bar>x\<bar>"
  shows "\<bar>rnd_real x - x\<bar> \<le> 2 powi (- 53) * \<bar>x\<bar>"
proof -
  from assms have m: "max \<bar>x\<bar> (2 powi (- 1022)) = \<bar>x\<bar>" by simp
  have "\<bar>rnd_real x - x\<bar> \<le> quantum x / 2" by (rule rnd_real_err)
  also have "\<dots> \<le> (2 powi (- 52) * \<bar>x\<bar>) / 2"
    using quantum_le [of x] unfolding m by simp
  also have "\<dots> = 2 powi (- 53) * \<bar>x\<bar>"
    by (simp add: power_int_minus)
  finally show ?thesis .
qed

lemma rnd_real_abs_err: "\<bar>rnd_real x - x\<bar> \<le> 2 powi (- 53) * \<bar>x\<bar> + 2 powi (- 1075)"
proof -
  have "\<bar>rnd_real x - x\<bar> \<le> quantum x / 2" by (rule rnd_real_err)
  also have "\<dots> \<le> (2 powi (- 52) * max \<bar>x\<bar> (2 powi (- 1022))) / 2"
    using quantum_le [of x] by simp
  also have "\<dots> \<le> (2 powi (- 52) * (\<bar>x\<bar> + 2 powi (- 1022))) / 2"
    by (intro divide_right_mono mult_left_mono) simp_all
  also have "\<dots> = 2 powi (- 53) * \<bar>x\<bar> + 2 powi (- 1075)"
    by (simp add: power_int_minus field_simps)
  finally show ?thesis .
qed

lemma rnd_real_eval:
  "binade x = b \<Longrightarrow> rnd_real x = of_int (rnd_even (x / 2 powi (b - 52))) * 2 powi (b - 52)"
  by (simp add: rnd_real_def quantum_def)

section \<open>Properties of the registry\<close>

lemma find_if_name_None: "find_if_name name registry = None \<longleftrightarrow> name \<notin> fst ` set registry"
  by (induction registry) auto

lemma find_if_name_Some:
  "find_if_name name registry = Some i \<Longrightarrow>
     i < length registry \<and> fst (registry ! i) = name \<and> (\<forall>j<i. fst (registry ! j) \<noteq> name)"
proof (induction registry arbitrary: i)
  case Nil
  then show ?case by simp
next
  case (Cons element rest)
  show ?case
  proof (cases "fst element = name")
    case True
    with Cons.prems show ?thesis by simp
  next
    case False
    with Cons.prems obtain k where k: "find_if_name name rest = Some k" "i = Suc k"
      by auto
    from Cons.IH [OF k(1)] have ih:
      "k < length rest" "fst (rest ! k) = name" "\<forall>j<k. fst (rest ! j) \<noteq> name"
      by simp_all
    have "\<forall>j<Suc k. fst ((element # rest) ! j) \<noteq> name"
    proof (intro allI impI)
      fix j assume "j < Suc k"
      then show "fst ((element # rest) ! j) \<noteq> name"
        using False ih(3) by (cases j) simp_all
    qed
    with ih k(2) show ?thesis by simp
  qed
qed

lemma find_if_name_append_old:
  "find_if_name name registry = Some i \<Longrightarrow> find_if_name name (registry @ extra) = Some i"
  by (induction registry arbitrary: i) auto

lemma find_if_name_append_new:
  "find_if_name name registry = None \<Longrightarrow>
     find_if_name name (registry @ [(name, v)]) = Some (length registry)"
  by (induction registry) (auto split: if_splits)

lemma registerVariable_found:
  "find_if_name name registry = Some slot \<Longrightarrow>
     registerVariable avail name p registry = (SUCCESS, Some slot, registry)"
  by (simp add: registerVariable_def)

lemma registerVariable_closed:
  "find_if_name name registry = None \<Longrightarrow>
     registerVariable False name p registry = (ERROR_GENERIC, p, registry)"
  by (simp add: registerVariable_def)

lemma registerVariable_fresh:
  "find_if_name name registry = None \<Longrightarrow>
     registerVariable True name p registry =
       (SUCCESS, Some (length registry), registry @ [(name, 0)])"
  by (simp add: registerVariable_def)

text \<open>
  Claim C2, as amended. With the registration window closed
  (\<^verbatim>\<open>isRegisteringAvailable_\<close> false), \<^verbatim>\<open>registerVariable\<close> never changes the telemetry
  data. For a name that is not in the registry of its kind it returns
  \<^verbatim>\<open>ERROR_GENERIC\<close> and leaves the out-parameter alone; for a name that is already there
  the lookup comes first, so it returns \<^verbatim>\<open>SUCCESS\<close> and the existing slot.
\<close>

theorem registerVariable_window_closed:
  assumes "\<not> isRegisteringAvailable d"
  shows "(name \<notin> fst ` set (integersRegistry d) \<longrightarrow>
            registerVariable_int64 name p d = (ERROR_GENERIC, p, d)) \<and>
         (name \<in> fst ` set (integersRegistry d) \<longrightarrow>
            (\<exists>slot. find_if_name name (integersRegistry d) = Some slot \<and>
               registerVariable_int64 name p d = (SUCCESS, Some slot, d))) \<and>
         (name \<notin> fst ` set (floatsRegistry d) \<longrightarrow>
            registerVariable_float64 name p d = (ERROR_GENERIC, p, d)) \<and>
         (name \<in> fst ` set (floatsRegistry d) \<longrightarrow>
            (\<exists>slot. find_if_name name (floatsRegistry d) = Some slot \<and>
               registerVariable_float64 name p d = (SUCCESS, Some slot, d)))"
proof (intro conjI impI)
  assume "name \<notin> fst ` set (integersRegistry d)"
  then have "find_if_name name (integersRegistry d) = None"
    by (simp add: find_if_name_None)
  with assms show "registerVariable_int64 name p d = (ERROR_GENERIC, p, d)"
    by (simp add: registerVariable_int64_def registerVariable_closed)
next
  assume "name \<in> fst ` set (integersRegistry d)"
  then obtain slot where s: "find_if_name name (integersRegistry d) = Some slot"
    using find_if_name_None [of name "integersRegistry d"] by (cases "find_if_name name (integersRegistry d)") auto
  then have "registerVariable_int64 name p d = (SUCCESS, Some slot, d)"
    by (simp add: registerVariable_int64_def registerVariable_found)
  with s show "\<exists>slot. find_if_name name (integersRegistry d) = Some slot \<and>
      registerVariable_int64 name p d = (SUCCESS, Some slot, d)"
    by blast
next
  assume "name \<notin> fst ` set (floatsRegistry d)"
  then have "find_if_name name (floatsRegistry d) = None"
    by (simp add: find_if_name_None)
  with assms show "registerVariable_float64 name p d = (ERROR_GENERIC, p, d)"
    by (simp add: registerVariable_float64_def registerVariable_closed)
next
  assume "name \<in> fst ` set (floatsRegistry d)"
  then obtain slot where s: "find_if_name name (floatsRegistry d) = Some slot"
    using find_if_name_None [of name "floatsRegistry d"] by (cases "find_if_name name (floatsRegistry d)") auto
  then have "registerVariable_float64 name p d = (SUCCESS, Some slot, d)"
    by (simp add: registerVariable_float64_def registerVariable_found)
  with s show "\<exists>slot. find_if_name name (floatsRegistry d) = Some slot \<and>
      registerVariable_float64 name p d = (SUCCESS, Some slot, d)"
    by blast
qed

text \<open>
  The amended claim at a frozen registry holding the integer variable \<^verbatim>\<open>x\<close>: the unknown
  name \<^verbatim>\<open>y\<close> is refused and nothing changes.
\<close>

theorem registerVariable_window_closed_witness:
  "\<not> isRegisteringAvailable
       \<lparr>constantsRegistry = [], integersRegistry = [(''x'', 7)], floatsRegistry = [],
        isRegisteringAvailable = False\<rparr> \<and>
   registerVariable_int64 ''y'' None
       \<lparr>constantsRegistry = [], integersRegistry = [(''x'', 7)], floatsRegistry = [],
        isRegisteringAvailable = False\<rparr> =
     (ERROR_GENERIC, None,
       \<lparr>constantsRegistry = [], integersRegistry = [(''x'', 7)], floatsRegistry = [],
        isRegisteringAvailable = False\<rparr>)"
  using registerVariable_window_closed
    [of "\<lparr>constantsRegistry = [], integersRegistry = [(''x'', 7)], floatsRegistry = [],
          isRegisteringAvailable = False\<rparr>" "''y''" None]
  by simp

text \<open>
  Claim C2 as stated fails: after the window is closed, registering the name \<^verbatim>\<open>x\<close> that
  was registered before returns \<^verbatim>\<open>SUCCESS\<close>, not an error code.
\<close>

theorem registerVariable_window_closed_counterexample:
  "\<not> isRegisteringAvailable
       \<lparr>constantsRegistry = [], integersRegistry = [(''x'', 7)], floatsRegistry = [],
        isRegisteringAvailable = False\<rparr> \<and>
   fst (registerVariable_int64 ''x'' None
       \<lparr>constantsRegistry = [], integersRegistry = [(''x'', 7)], floatsRegistry = [],
        isRegisteringAvailable = False\<rparr>) = SUCCESS"
  by (simp add: registerVariable_int64_def registerVariable_def)

text \<open>
  Claim C8. For a name already present in the registry, \<^verbatim>\<open>registerVariable\<close> returns
  \<^verbatim>\<open>SUCCESS\<close>, sets the out-parameter to the slot of the first element with that name, and
  returns the registry as it was, whatever the registration flag. The slot is the one the
  first registration handed out: registering a new name and then, after any further
  \<^verbatim>\<open>emplace_back\<close>s, registering it again yields the same slot and changes nothing.
\<close>

theorem registerVariable_idempotent:
  "(name \<in> fst ` set registry \<longrightarrow>
      (\<exists>slot. slot < length registry \<and>
          registerVariable avail name p registry = (SUCCESS, Some slot, registry) \<and>
          fst (registry ! slot) = name \<and> (\<forall>j. j < slot \<longrightarrow> fst (registry ! j) \<noteq> name))) \<and>
   (name \<notin> fst ` set registry \<longrightarrow>
      (\<exists>slot registry'.
          registerVariable True name p registry = (SUCCESS, Some slot, registry') \<and>
          registerVariable avail name q (registry' @ extra) =
            (SUCCESS, Some slot, registry' @ extra)))"
proof (intro conjI impI)
  assume "name \<in> fst ` set registry"
  then obtain slot where s: "find_if_name name registry = Some slot"
    using find_if_name_None [of name registry] by (cases "find_if_name name registry") auto
  from find_if_name_Some [OF s] registerVariable_found [OF s, of avail p]
  show "\<exists>slot. slot < length registry \<and>
          registerVariable avail name p registry = (SUCCESS, Some slot, registry) \<and>
          fst (registry ! slot) = name \<and> (\<forall>j. j < slot \<longrightarrow> fst (registry ! j) \<noteq> name)"
    by blast
next
  assume "name \<notin> fst ` set registry"
  then have n: "find_if_name name registry = None"
    by (simp add: find_if_name_None)
  have "find_if_name name ((registry @ [(name, 0)]) @ extra) = Some (length registry)"
    by (rule find_if_name_append_old) (rule find_if_name_append_new [OF n])
  then have "registerVariable avail name q ((registry @ [(name, 0)]) @ extra) =
      (SUCCESS, Some (length registry), (registry @ [(name, 0)]) @ extra)"
    by (rule registerVariable_found)
  with registerVariable_fresh [OF n, of p]
  show "\<exists>slot registry'.
          registerVariable True name p registry = (SUCCESS, Some slot, registry') \<and>
          registerVariable avail name q (registry' @ extra) =
            (SUCCESS, Some slot, registry' @ extra)"
    by blast
qed

text \<open>
  The claim at a registry of two integer variables: registering \<^verbatim>\<open>b\<close> again returns its
  slot 1 and the same registry.
\<close>

theorem registerVariable_idempotent_witness:
  "''b'' \<in> fst ` set [(''a'', 3 :: 64 word), (''b'', 4)] \<and>
   registerVariable True ''b'' None [(''a'', 3 :: 64 word), (''b'', 4)] =
     (SUCCESS, Some 1, [(''a'', 3), (''b'', 4)])"
  using registerVariable_idempotent [of "''b''" "[(''a'', 3 :: 64 word), (''b'', 4)]" True None]
  by (simp add: registerVariable_def)

section \<open>Properties of the step adjustment\<close>

subsection \<open>The constants in double precision\<close>

text \<open>
  A rounding is evaluated from the binade of the exact value and the nearest integer to the
  value over the quantum of that binade. The constant expressions of \<^verbatim>\<open>adjustStepImpl\<close> are
  evaluated this way, one after the other; the two powers with the integer exponents
  \<^verbatim>\<open>5\<close> and \<^verbatim>\<open>-5\<close> are rational numbers.
\<close>

lemma rnd_eval:
  assumes "binade x = b" "rnd_even (x / 2 powi (b - 52)) = n"
    and "\<bar>of_int n * 2 powi (b - 52)\<bar> < (2::real) ^ 1024"
  shows "rnd x = Finite (of_int n * 2 powi (b - 52))"
  using assms by (simp add: rnd_def rnd_real_eval [OF assms(1)])

lemma SAFETY_val: "SAFETY = Finite safety"
proof -
  have b: "binade (9 / 10) = - 1" by (rule binadeI) simp_all
  have n: "rnd_even ((9 / 10) / 2 powi (- 1 - 52)) = 8106479329266893"
    by (simp add: rnd_even_def Let_def)
  from rnd_eval [OF b n] show ?thesis by (simp add: SAFETY_def safety_def)
qed

lemma tenth_val: "rnd 0.1 = Finite tenth"
proof -
  have b: "binade (1 / 10) = - 4" by (rule binadeI) simp_all
  have n: "rnd_even ((1 / 10) / 2 powi (- 4 - 52)) = 7205759403792794"
    by (simp add: rnd_even_def Let_def)
  from rnd_eval [OF b n] show ?thesis by (simp add: tenth_def)
qed

lemma MIN_FACTOR_val: "MIN_FACTOR = Finite minFactor"
proof -
  have b: "binade (1 / 5) = - 3" by (rule binadeI) simp_all
  have n: "rnd_even ((1 / 5) / 2 powi (- 3 - 52)) = 7205759403792794"
    by (simp add: rnd_even_def Let_def)
  from rnd_eval [OF b n] show ?thesis by (simp add: MIN_FACTOR_def minFactor_def)
qed

lemma growExponent_val: "f_div (Finite (- 1.0)) STEPPER_ORDER = Finite growExponent"
proof -
  have b: "binade (- (1 / 5)) = - 3" by (rule binadeI) simp_all
  have n: "rnd_even ((- (1 / 5)) / 2 powi (- 3 - 52)) = - 7205759403792794"
    by (simp add: rnd_even_def Let_def)
  from rnd_eval [OF b n] show ?thesis by (simp add: STEPPER_ORDER_def growExponent_def)
qed

lemma shrinkExponent_val:
  "f_div (Finite (- 1.0)) (f_sub STEPPER_ORDER (Finite 2)) = Finite shrinkExponent"
proof -
  have b: "binade (- (1 / 3)) = - 2" by (rule binadeI) simp_all
  have n: "rnd_even ((- (1 / 3)) / 2 powi (- 2 - 52)) = - 6004799503160661"
    by (simp add: rnd_even_def Let_def)
  from rnd_eval [OF b n] show ?thesis by (simp add: STEPPER_ORDER_def shrinkExponent_def)
qed

lemma factorRatio_val: "f_div MAX_FACTOR SAFETY = Finite factorRatio"
proof -
  have b: "binade (5 / (8106479329266893 / 2 ^ 53)) = 2" by (rule binadeI) simp_all
  have n: "rnd_even ((5 / (8106479329266893 / 2 ^ 53)) / 2 powi (2 - 52)) = 6254999482459022"
    by (simp add: rnd_even_def Let_def)
  from rnd_eval [OF b n] show ?thesis
    by (simp add: MAX_FACTOR_def SAFETY_val safety_def factorRatio_def)
qed

lemma errorFloor_val:
  "f_pow (f_div MAX_FACTOR SAFETY) (f_neg STEPPER_ORDER) = Finite errorFloor"
proof -
  let ?x = "1 / (3127499741229511 / 2 ^ 49) ^ 5 :: real"
  have b: "binade ?x = - 13" by (rule binadeI) (simp_all add: power_divide)
  have n: "rnd_even (?x / 2 powi (- 13 - 52)) = 6971275461174243"
    by (simp add: rnd_even_def Let_def power_divide)
  have "(3127499741229511 / 2 ^ 49 :: real) powr (- 5) = ?x"
    by (simp add: powr_minus_divide)
  with rnd_eval [OF b n] show ?thesis
    unfolding factorRatio_val by (simp add: factorRatio_def STEPPER_ORDER_def errorFloor_def)
qed

lemma growThreshold_val: "f_pow SAFETY STEPPER_ORDER = Finite growThreshold"
proof -
  let ?x = "(8106479329266893 / 2 ^ 53) ^ 5 :: real"
  have b: "binade ?x = - 1" by (rule binadeI) (simp_all add: power_divide)
  have n: "rnd_even (?x / 2 powi (- 1 - 52)) = 5318661087932009"
    by (simp add: rnd_even_def Let_def power_divide)
  have "(8106479329266893 / 2 ^ 53 :: real) powr 5 = ?x"
    by simp
  with rnd_eval [OF b n] show ?thesis
    by (simp add: SAFETY_val safety_def STEPPER_ORDER_def growThreshold_def)
qed

lemma safety_representable: "rnd_real safety = safety"
  unfolding safety_def
  by (rule rnd_real_representable [of _ 8106479329266893 "- 53"]) (simp_all add: power_int_minus)

lemma stepper_value_bounds:
  "0 < tenth" "tenth \<le> safety" "0 < minFactor" "minFactor \<le> safety" "0 < safety" "safety < 1"
  "safety + 2 powi (- 53) < 1" "shrinkExponent < 0" "growExponent < 0"
  by (simp_all add: tenth_def safety_def minFactor_def shrinkExponent_def growExponent_def)




lemma f_max_Finite: "f_max (Finite a) (Finite b) = Finite (max a b)"
  by (simp add: f_max_def max_def)

lemma reject_factor:
  assumes "\<not> f_isnan E" "\<not> f_less E (Finite 1)"
  shows "\<exists>f. f_max (f_mul SAFETY
                 (f_pow E (f_div (Finite (- 1.0)) (f_sub STEPPER_ORDER (Finite 2))))) MIN_FACTOR =
               Finite f \<and> minFactor \<le> f \<and> f \<le> safety"
proof (cases E)
  case NaN
  with assms show ?thesis by (simp add: f_isnan_def)
next
  case NInf
  with assms show ?thesis by simp
next
  case PInf
  have "f_max (f_mul SAFETY
          (f_pow E (f_div (Finite (- 1.0)) (f_sub STEPPER_ORDER (Finite 2))))) MIN_FACTOR =
        Finite minFactor"
    unfolding PInf shrinkExponent_val SAFETY_val MIN_FACTOR_val
    using stepper_value_bounds by (simp add: f_max_Finite)
  with stepper_value_bounds show ?thesis by simp
next
  case (Finite e)
  with assms have e: "1 \<le> e" by simp
  let ?v = "e powr shrinkExponent"
  have "?v \<le> 1 powr shrinkExponent"
    by (rule powr_mono2') (use e stepper_value_bounds in simp_all)
  then have v1: "?v \<le> 1" by simp
  have v0: "0 \<le> ?v" by simp
  have "- 1 \<le> (0::real)" by simp
  from this v0 have "- 1 \<le> ?v" by (rule order_trans)
  from rnd_within [OF this v1] have p: "rnd ?v = Finite (rnd_real ?v)"
    and p1: "rnd_real ?v \<le> 1" by simp_all
  let ?p = "rnd_real ?v"
  from rnd_real_nonneg [OF v0] have p0: "0 \<le> ?p" .
  have "safety * ?p \<le> safety * 1"
    using p1 stepper_value_bounds by (intro mult_left_mono) simp_all
  then have sp: "safety * ?p \<le> safety" by simp
  from p0 stepper_value_bounds have sp0: "0 \<le> safety * ?p" by simp
  with stepper_value_bounds have "- safety \<le> safety * ?p" by linarith
  from rnd_within [OF this sp safety_representable]
  have q: "rnd (safety * ?p) = Finite (rnd_real (safety * ?p))"
    and q1: "rnd_real (safety * ?p) \<le> safety"
    using stepper_value_bounds by simp_all
  have pw: "f_pow E (f_div (Finite (- 1.0)) (f_sub STEPPER_ORDER (Finite 2))) = Finite ?p"
    unfolding Finite shrinkExponent_val using e p stepper_value_bounds by simp
  have "f_max (f_mul SAFETY
          (f_pow E (f_div (Finite (- 1.0)) (f_sub STEPPER_ORDER (Finite 2))))) MIN_FACTOR =
        Finite (max (rnd_real (safety * ?p)) minFactor)"
    unfolding pw SAFETY_val MIN_FACTOR_val by (simp add: q f_max_Finite)
  moreover have "minFactor \<le> max (rnd_real (safety * ?p)) minFactor"
    by (rule max.cobounded2)
  moreover have "max (rnd_real (safety * ?p)) minFactor \<le> safety"
    using q1 stepper_value_bounds(4) by (rule max.boundedI)
  ultimately show ?thesis by blast
qed

subsection \<open>The largest growth factor\<close>

text \<open>
  The growth factor is largest where the error is at its floor. The fifth root there,
  \<^verbatim>\<open>errorFloor\<close> to the power \<^verbatim>\<open>growExponent\<close>, is irrational; it is enclosed between the two
  midpoints around the double \<^verbatim>\<open>growMax\<close> by bounds on the logarithm and the exponential, so
  that it rounds to \<^verbatim>\<open>growMax\<close>. Every other error of the growing branch gives a smaller power,
  and rounding is monotone.
\<close>

lemma rnd_even_near:
  assumes "\<bar>x - of_int n\<bar> < 1 / 2"
  shows "rnd_even x = n"
proof -
  from rnd_even_bounds [of x] have "\<bar>of_int (rnd_even x) - x\<bar> \<le> 1 / 2" by linarith
  with assms have "\<bar>real_of_int (rnd_even x) - of_int n\<bar> < 1" by linarith
  then have "\<bar>real_of_int (rnd_even x - n)\<bar> < 1" by simp
  then have "\<bar>rnd_even x - n\<bar> < 1"
    by (metis of_int_abs of_int_less_1_iff)
  then show ?thesis by simp
qed

lemma ln_ge_one_minus_inverse:
  assumes "0 < (x::real)"
  shows "1 - 1 / x \<le> ln x"
proof -
  from assms have "0 < 1 / x" by simp
  from ln_le_minus_one [OF this] have "ln (1 / x) \<le> 1 / x - 1" .
  with assms show ?thesis by (simp add: ln_div)
qed

lemma exp_one_plus:
  "0 < (R::real) \<Longrightarrow> exp ((1 + d) * ln R) = R * exp (d * ln R)"
  by (simp add: distrib_right exp_add)

text \<open>The power of the error floor, between the two midpoints around growMax.\<close>

lemma floor_power_upper:
  "errorFloor powr growExponent < growMax + 1 / 2 ^ 51"
proof -
  define R :: real where "R = 5555555555555555397063 / 10 ^ 21"
  define S :: real where "S = 2358 / 1000"
  define x :: real where "x = 2 powi (- 54) * (2 * (S - 1))"
  have Rpos: "0 < R" by (simp add: R_def)
  have flpos: "0 < errorFloor" by (simp add: errorFloor_def)
  have "1 / R ^ 5 \<le> errorFloor"
    by (simp add: R_def errorFloor_def power_divide)
  then have "ln (1 / R ^ 5) \<le> ln errorFloor"
    using Rpos flpos by (subst ln_le_cancel_iff) simp_all
  moreover have "ln (1 / R ^ 5) = - 5 * ln R"
    using Rpos by (simp add: ln_div ln_realpow)
  ultimately have lnfl: "- 5 * ln R \<le> ln errorFloor" by simp
  have gneg: "growExponent \<le> 0" using stepper_value_bounds by simp
  have "growExponent * ln errorFloor \<le> growExponent * (- 5 * ln R)"
    by (rule mult_left_mono_neg [OF lnfl gneg])
  also have "growExponent * (- 5 * ln R) = (- 5 * growExponent) * ln R" by simp
  also have "- 5 * growExponent = 1 + 2 powi (- 54)"
    by (simp add: growExponent_def power_int_minus)
  finally have ex: "growExponent * ln errorFloor \<le> (1 + 2 powi (- 54)) * ln R" .
  have "R \<le> S ^ 2" by (simp add: R_def S_def power_divide)
  then have "ln R \<le> ln (S ^ 2)"
    using Rpos by (subst ln_le_cancel_iff) (simp_all add: S_def)
  also have "ln (S ^ 2) = 2 * ln S" by (simp add: ln_realpow S_def)
  also have "ln S \<le> S - 1" by (rule ln_le_minus_one) (simp add: S_def)
  finally have lnR: "ln R \<le> 2 * (S - 1)" by simp
  have "2 powi (- 54) * ln R \<le> x"
    unfolding x_def using lnR by (intro mult_left_mono) simp_all
  then have "exp (2 powi (- 54) * ln R) \<le> exp x" by simp
  also have "exp x \<le> 1 + x + x\<^sup>2"
    by (rule exp_bound) (simp_all add: x_def S_def power_int_minus)
  finally have small: "exp (2 powi (- 54) * ln R) \<le> 1 + x + x\<^sup>2" .
  have "errorFloor powr growExponent = exp (growExponent * ln errorFloor)"
    using flpos by (simp add: powr_def)
  also have "\<dots> \<le> exp ((1 + 2 powi (- 54)) * ln R)"
    using ex by simp
  also have "\<dots> = R * exp (2 powi (- 54) * ln R)"
    by (rule exp_one_plus [OF Rpos])
  also have "\<dots> \<le> R * (1 + x + x\<^sup>2)"
    using small Rpos by (intro mult_left_mono) simp_all
  also have "\<dots> < growMax + 1 / 2 ^ 51"
    by (simp add: R_def x_def S_def growMax_def power_int_minus power2_eq_square)
  finally show ?thesis .
qed

lemma floor_power_lower:
  "growMax - 1 / 2 ^ 51 < errorFloor powr growExponent"
proof -
  define R :: real where "R = 5555555555555555397062 / 10 ^ 21"
  define Q :: real where "Q = 1535 / 1000"
  define x :: real where "x = 2 powi (- 54) * (4 * (1 - 1 / Q))"
  have Rpos: "0 < R" by (simp add: R_def)
  have flpos: "0 < errorFloor" by (simp add: errorFloor_def)
  have "errorFloor \<le> 1 / R ^ 5"
    by (simp add: R_def errorFloor_def power_divide)
  then have "ln errorFloor \<le> ln (1 / R ^ 5)"
    using flpos by (subst ln_le_cancel_iff) (simp_all add: Rpos)
  moreover have "ln (1 / R ^ 5) = - 5 * ln R"
    using Rpos by (simp add: ln_div ln_realpow)
  ultimately have lnfl: "ln errorFloor \<le> - 5 * ln R" by simp
  have gneg: "growExponent \<le> 0" using stepper_value_bounds by simp
  have mono: "growExponent * (- 5 * ln R) \<le> growExponent * ln errorFloor"
    by (rule mult_left_mono_neg [OF lnfl gneg])
  have "- 5 * growExponent = 1 + 2 powi (- 54)"
    by (simp add: growExponent_def power_int_minus)
  then have "(1 + 2 powi (- 54)) * ln R = (- 5 * growExponent) * ln R" by (simp only:)
  also have "\<dots> = growExponent * (- 5 * ln R)" by simp
  also note mono
  finally have ex: "(1 + 2 powi (- 54)) * ln R \<le> growExponent * ln errorFloor" .
  have "Q ^ 4 \<le> R" by (simp add: R_def Q_def power_divide)
  then have "ln (Q ^ 4) \<le> ln R"
    by (subst ln_le_cancel_iff) (simp_all add: Q_def Rpos)
  moreover have "ln (Q ^ 4) = 4 * ln Q" by (simp add: ln_realpow Q_def)
  moreover have "1 - 1 / Q \<le> ln Q" by (rule ln_ge_one_minus_inverse) (simp add: Q_def)
  ultimately have lnR: "4 * (1 - 1 / Q) \<le> ln R" by simp
  have "x \<le> 2 powi (- 54) * ln R"
    unfolding x_def using lnR by (intro mult_left_mono) simp_all
  have "1 + x \<le> exp x" by (rule exp_ge_add_one_self)
  also have "exp x \<le> exp (2 powi (- 54) * ln R)"
    using \<open>x \<le> 2 powi (- 54) * ln R\<close> by simp
  finally have small: "1 + x \<le> exp (2 powi (- 54) * ln R)" .
  have "growMax - 1 / 2 ^ 51 < R * (1 + x)"
    by (simp add: R_def x_def Q_def growMax_def power_int_minus)
  also have "\<dots> \<le> R * exp (2 powi (- 54) * ln R)"
    using small Rpos by (intro mult_left_mono) simp_all
  also have "\<dots> = exp ((1 + 2 powi (- 54)) * ln R)"
    by (rule exp_one_plus [OF Rpos, symmetric])
  also have "\<dots> \<le> exp (growExponent * ln errorFloor)"
    using ex by simp
  also have "\<dots> = errorFloor powr growExponent"
    using flpos by (simp add: powr_def)
  finally show ?thesis .
qed


lemma growMax_representable: "rnd_real growMax = growMax"
  unfolding growMax_def
  by (rule rnd_real_representable [of _ 6254999482459023 "- 50"]) (simp_all add: power_int_minus)

lemma floor_power_rnd: "rnd_real (errorFloor powr growExponent) = growMax"
proof -
  let ?v = "errorFloor powr growExponent"
  from floor_power_upper floor_power_lower
  have lo: "growMax - 1 / 2 ^ 51 < ?v" and hi: "?v < growMax + 1 / 2 ^ 51" by simp_all
  have "4 \<le> growMax - 1 / 2 ^ 51" "growMax + 1 / 2 ^ 51 \<le> 8"
    by (simp_all add: growMax_def)
  with lo hi have v: "4 \<le> ?v" "?v < 8" by linarith+
  have b: "binade ?v = 2"
    by (rule binadeI) (use v in simp_all)
  have "\<bar>?v / 2 powi (2 - 52) - of_int 6254999482459023\<bar> =
          \<bar>?v - growMax\<bar> * 2 ^ 50"
    by (simp add: growMax_def power_int_minus field_simps abs_mult)
  also have "\<bar>?v - growMax\<bar> < 1 / 2 ^ 51"
    using lo hi by linarith
  then have "\<bar>?v - growMax\<bar> * 2 ^ 50 < 1 / 2 ^ 51 * 2 ^ 50"
    by (intro mult_strict_right_mono) simp_all
  also have "(1 / 2 ^ 51 * 2 ^ 50 :: real) = 1 / 2" by simp
  finally have "rnd_even (?v / 2 powi (2 - 52)) = 6254999482459023"
    by (rule rnd_even_near)
  with rnd_real_eval [OF b] show ?thesis
    by (simp add: growMax_def power_int_minus)
qed

lemma growFactorMax_val: "rnd (safety * growMax) = Finite growFactorMax"
proof -
  let ?x = "(8106479329266893 / 2 ^ 53) * (6254999482459023 / 2 ^ 50) :: real"
  have b: "binade ?x = 2" by (rule binadeI) simp_all
  have n: "rnd_even (?x / 2 powi (2 - 52)) = 5629499534213121"
    by (simp add: rnd_even_def Let_def)
  from rnd_eval [OF b n] show ?thesis
    by (simp add: safety_def growMax_def growFactorMax_def)
qed

lemma growFactorMax_real: "rnd_real (safety * growMax) = growFactorMax"
  using growFactorMax_val by (simp add: rnd_def f_inf_def split: if_splits)

lemma growFactorMax_exceeds: "growFactorMax = 5 + 1 / 2 ^ 50"
  by (simp add: growFactorMax_def)

text \<open>The growth factor for any error that takes the growing branch.\<close>

lemma grow_factor:
  assumes "\<not> f_isnan E" "f_less E (Finite 1)"
  shows "\<exists>g. f_mul (Finite safety) (f_pow (f_max E (Finite errorFloor)) (Finite growExponent)) =
               Finite g \<and> safety \<le> g \<and> g \<le> growFactorMax"
proof -
  have flpos: "0 < errorFloor" "errorFloor < 1" by (simp_all add: errorFloor_def)
  obtain x where x: "f_max E (Finite errorFloor) = Finite x" and xlo: "errorFloor \<le> x"
    and xhi: "x \<le> 1"
  proof (cases E)
    case NaN
    with assms show ?thesis by (simp add: f_isnan_def)
  next
    case PInf
    with assms show ?thesis by simp
  next
    case NInf
    with flpos that [of errorFloor] show ?thesis by (simp add: f_max_def)
  next
    case (Finite e)
    with assms have "e < 1" by simp
    with flpos that [of "max e errorFloor"] Finite show ?thesis
      by (simp add: f_max_Finite)
  qed
  let ?v = "x powr growExponent"
  have gneg: "growExponent \<le> 0" "growExponent \<noteq> 0" using stepper_value_bounds by simp_all
  from flpos xlo have xpos: "0 < x" by simp
  have "?v \<le> errorFloor powr growExponent"
    by (rule powr_mono2' [OF gneg(1) flpos(1) xlo])
  from rnd_real_mono [OF this] have gu: "rnd_real ?v \<le> growMax"
    by (simp add: floor_power_rnd)
  have "1 powr growExponent \<le> ?v"
    by (rule powr_mono2' [OF gneg(1) xpos xhi])
  then have "1 \<le> ?v" by simp
  from rnd_real_mono [OF this] have gl: "1 \<le> rnd_real ?v" by simp
  have gm: "growMax < 2 ^ 1024" by (simp add: growMax_def)
  from gl gu gm have "\<bar>rnd_real ?v\<bar> < 2 ^ 1024" by simp
  then have p: "rnd ?v = Finite (rnd_real ?v)" by (rule rnd_Finite)
  let ?g = "rnd_real ?v"
  have spos: "0 \<le> safety" using stepper_value_bounds by simp
  have "safety * ?g \<le> safety * growMax"
    using gu spos by (rule mult_left_mono)
  from rnd_real_mono [OF this] have fu: "rnd_real (safety * ?g) \<le> growFactorMax"
    by (simp add: growFactorMax_real)
  have "safety * 1 \<le> safety * ?g"
    using gl spos by (rule mult_left_mono)
  then have "safety \<le> safety * ?g" by simp
  from rnd_real_mono [OF this] have fl: "safety \<le> rnd_real (safety * ?g)"
    by (simp add: safety_representable)
  have "growFactorMax < 2 ^ 1024" by (simp add: growFactorMax_def)
  with fl fu spos have "\<bar>rnd_real (safety * ?g)\<bar> < 2 ^ 1024" by simp
  then have q: "rnd (safety * ?g) = Finite (rnd_real (safety * ?g))" by (rule rnd_Finite)
  have "f_pow (Finite x) (Finite growExponent) = Finite ?g"
    using xpos gneg p by simp
  then have "f_mul (Finite safety) (f_pow (f_max E (Finite errorFloor)) (Finite growExponent)) =
      Finite (rnd_real (safety * ?g))"
    by (simp add: x q)
  with fl fu show ?thesis by blast
qed

subsection \<open>The smallest step\<close>

text \<open>
  The product of the smallest positive double and \<^verbatim>\<open>SAFETY\<close> lies between zero and that
  double, nearer to the double: it rounds back to it.
\<close>

lemma rnd_safety: "rnd safety = Finite safety"
  using safety_representable stepper_value_bounds by (simp add: rnd_def)

lemma reject_at_one:
  "f_max (f_mul (Finite safety) (f_pow (Finite 1) (Finite shrinkExponent))) (Finite minFactor) =
     Finite safety"
  using stepper_value_bounds by (simp add: rnd_safety f_max_Finite max_def)




subsection \<open>The policy\<close>

text \<open>
  Claim C4, as amended. \<^verbatim>\<open>adjustStepImpl\<close> follows the policy of the spec with every operation
  rounded to a double. A not-a-number error rejects the step and multiplies \<^verbatim>\<open>dt\<close> by the
  double \<^verbatim>\<open>0.1\<close>. An error below one accepts the step; below \<^verbatim>\<open>pow(SAFETY, 5)\<close> the step is
  multiplied by the double \<^verbatim>\<open>SAFETY * pow(max(E, pow(MAX_FACTOR / SAFETY, -5)), -1.0 / 5)\<close>,
  which lies between \<^verbatim>\<open>SAFETY\<close> and \<^verbatim>\<open>5 + 2^(-50)\<close>, and otherwise \<^verbatim>\<open>dt\<close> is left as it is. An
  error of one or more rejects the step and multiplies \<^verbatim>\<open>dt\<close> by the double
  \<^verbatim>\<open>max(SAFETY * pow(E, -1.0 / (5 - 2)), MIN_FACTOR)\<close>, which lies between \<^verbatim>\<open>MIN_FACTOR\<close> and
  \<^verbatim>\<open>SAFETY\<close>. The product with \<^verbatim>\<open>dt\<close> is rounded in its turn. \<^verbatim>\<open>SAFETY\<close> and \<^verbatim>\<open>MIN_FACTOR\<close> are
  the doubles nearest to \<^verbatim>\<open>0.9\<close> and \<^verbatim>\<open>0.2\<close>.
\<close>

theorem adjustStepImpl_policy:
  "SAFETY = Finite safety \<and> MIN_FACTOR = Finite minFactor \<and> growFactorMax = 5 + 1 / 2 ^ 50 \<and>
   adjustStepImpl NaN dt = (False, f_mul dt (rnd 0.1)) \<and>
   (\<not> f_isnan E \<and> f_less E (Finite 1.0) \<and> f_less E (f_pow SAFETY STEPPER_ORDER) \<longrightarrow>
      (\<exists>g. f_mul SAFETY
              (f_pow (f_max E (f_pow (f_div MAX_FACTOR SAFETY) (f_neg STEPPER_ORDER)))
                 (f_div (Finite (- 1.0)) STEPPER_ORDER)) = Finite g \<and>
           safety \<le> g \<and> g \<le> growFactorMax \<and>
           adjustStepImpl E dt = (True, f_mul dt (Finite g)))) \<and>
   (\<not> f_isnan E \<and> f_less E (Finite 1.0) \<and> \<not> f_less E (f_pow SAFETY STEPPER_ORDER) \<longrightarrow>
      adjustStepImpl E dt = (True, dt)) \<and>
   (\<not> f_isnan E \<and> \<not> f_less E (Finite 1.0) \<longrightarrow>
      (\<exists>f. f_max (f_mul SAFETY
                     (f_pow E (f_div (Finite (- 1.0)) (f_sub STEPPER_ORDER (Finite 2)))))
              MIN_FACTOR = Finite f \<and>
           minFactor \<le> f \<and> f \<le> safety \<and>
           adjustStepImpl E dt = (False, f_mul dt (Finite f))))"
proof (intro conjI impI)
  show "SAFETY = Finite safety" by (rule SAFETY_val)
  show "MIN_FACTOR = Finite minFactor" by (rule MIN_FACTOR_val)
  show "growFactorMax = 5 + 1 / 2 ^ 50" by (rule growFactorMax_exceeds)
  show "adjustStepImpl NaN dt = (False, f_mul dt (rnd 0.1))"
    by (simp add: adjustStepImpl_def f_isnan_def)
next
  assume a: "\<not> f_isnan E \<and> f_less E (Finite 1.0) \<and> f_less E (f_pow SAFETY STEPPER_ORDER)"
  then have "\<not> f_isnan E" "f_less E (Finite 1)" by simp_all
  from grow_factor [OF this] obtain g where
    g: "f_mul (Finite safety) (f_pow (f_max E (Finite errorFloor)) (Finite growExponent)) =
          Finite g"
    and bounds: "safety \<le> g" "g \<le> growFactorMax"
    by blast
  have e: "f_mul SAFETY
              (f_pow (f_max E (f_pow (f_div MAX_FACTOR SAFETY) (f_neg STEPPER_ORDER)))
                 (f_div (Finite (- 1.0)) STEPPER_ORDER)) = Finite g"
    unfolding errorFloor_val growExponent_val unfolding SAFETY_val by (rule g)
  have "adjustStepImpl E dt = (True, f_mul dt (Finite g))"
    unfolding adjustStepImpl_def Let_def e using a by simp
  with e bounds show "\<exists>g. f_mul SAFETY
              (f_pow (f_max E (f_pow (f_div MAX_FACTOR SAFETY) (f_neg STEPPER_ORDER)))
                 (f_div (Finite (- 1.0)) STEPPER_ORDER)) = Finite g \<and>
           safety \<le> g \<and> g \<le> growFactorMax \<and>
           adjustStepImpl E dt = (True, f_mul dt (Finite g))"
    by blast
next
  assume "\<not> f_isnan E \<and> f_less E (Finite 1.0) \<and> \<not> f_less E (f_pow SAFETY STEPPER_ORDER)"
  then show "adjustStepImpl E dt = (True, dt)"
    unfolding adjustStepImpl_def by simp
next
  assume a: "\<not> f_isnan E \<and> \<not> f_less E (Finite 1.0)"
  then have "\<not> f_isnan E" "\<not> f_less E (Finite 1)" by simp_all
  from reject_factor [OF this] obtain f where
    f: "f_max (f_mul SAFETY
                     (f_pow E (f_div (Finite (- 1.0)) (f_sub STEPPER_ORDER (Finite 2)))))
              MIN_FACTOR = Finite f"
    and bounds: "minFactor \<le> f" "f \<le> safety"
    by blast
  have "adjustStepImpl E dt = (False, f_mul dt (Finite f))"
    unfolding adjustStepImpl_def f using a by simp
  with f bounds show "\<exists>f. f_max (f_mul SAFETY
                     (f_pow E (f_div (Finite (- 1.0)) (f_sub STEPPER_ORDER (Finite 2)))))
              MIN_FACTOR = Finite f \<and>
           minFactor \<le> f \<and> f \<le> safety \<and>
           adjustStepImpl E dt = (False, f_mul dt (Finite f))"
    by blast
qed

text \<open>
  The amended claim at four errors, one for each case, with \<^verbatim>\<open>dt = 1\<close>: a not-a-number,
  \<^verbatim>\<open>1/2\<close> (the step grows), \<^verbatim>\<open>3/4\<close> (the step is kept) and \<^verbatim>\<open>1\<close> (the step shrinks to
  \<^verbatim>\<open>SAFETY\<close>).
\<close>

theorem adjustStepImpl_policy_witness:
  "adjustStepImpl NaN (Finite 1) = (False, Finite tenth) \<and>
   (\<exists>g. adjustStepImpl (Finite (1 / 2)) (Finite 1) = (True, f_mul (Finite 1) (Finite g)) \<and>
        safety \<le> g \<and> g \<le> growFactorMax) \<and>
   adjustStepImpl (Finite (3 / 4)) (Finite 1) = (True, Finite 1) \<and>
   adjustStepImpl (Finite 1) (Finite 1) = (False, Finite safety)"
proof -
  have t: "rnd tenth = Finite tenth"
    unfolding tenth_def
    by (rule rnd_representable [of _ 3602879701896397 "- 55"]) (simp_all add: power_int_minus)
  note policy = adjustStepImpl_policy [of "Finite 1"]
  from policy [of NaN] have "adjustStepImpl NaN (Finite 1) = (False, f_mul (Finite 1) (rnd 0.1))"
    by blast
  then have a: "adjustStepImpl NaN (Finite 1) = (False, Finite tenth)"
    unfolding tenth_val by (simp add: t)
  have "\<not> f_isnan (Finite (1 / 2)) \<and> f_less (Finite (1 / 2)) (Finite 1.0) \<and>
        f_less (Finite (1 / 2)) (f_pow SAFETY STEPPER_ORDER)"
    unfolding growThreshold_val by (simp add: f_isnan_def growThreshold_def)
  with policy [of "Finite (1 / 2)"]
  have b: "\<exists>g. adjustStepImpl (Finite (1 / 2)) (Finite 1) = (True, f_mul (Finite 1) (Finite g)) \<and>
        safety \<le> g \<and> g \<le> growFactorMax"
    by blast
  have "\<not> f_isnan (Finite (3 / 4)) \<and> f_less (Finite (3 / 4)) (Finite 1.0) \<and>
        \<not> f_less (Finite (3 / 4)) (f_pow SAFETY STEPPER_ORDER)"
    unfolding growThreshold_val by (simp add: f_isnan_def growThreshold_def)
  with policy [of "Finite (3 / 4)"]
  have c: "adjustStepImpl (Finite (3 / 4)) (Finite 1) = (True, Finite 1)"
    by blast
  have "\<not> f_isnan (Finite 1) \<and> \<not> f_less (Finite 1) (Finite 1.0)"
    by (simp add: f_isnan_def)
  with policy [of "Finite 1"] obtain f where
    f: "f_max (f_mul SAFETY
                 (f_pow (Finite 1) (f_div (Finite (- 1.0)) (f_sub STEPPER_ORDER (Finite 2)))))
              MIN_FACTOR = Finite f"
    and r: "adjustStepImpl (Finite 1) (Finite 1) = (False, f_mul (Finite 1) (Finite f))"
    by blast
  from f have "f = safety"
    unfolding shrinkExponent_val SAFETY_val MIN_FACTOR_val reject_at_one by simp
  with r have d: "adjustStepImpl (Finite 1) (Finite 1) = (False, Finite safety)"
    by (simp add: rnd_safety)
  from a b c d show ?thesis by blast
qed

text \<open>
  Claim C4 as stated fails where it bounds the growth by \<^verbatim>\<open>MAX_FACTOR\<close>: for a zero error
  and \<^verbatim>\<open>dt = 1\<close> the new step is \<^verbatim>\<open>5 + 2^(-50)\<close>, which is more than \<^verbatim>\<open>MAX_FACTOR * dt = 5\<close>.
  The power \<^verbatim>\<open>pow(errorFloor, -1.0 / 5)\<close> is nearer to the double \<^verbatim>\<open>growMax\<close> than to any other
  double, and the product of \<^verbatim>\<open>SAFETY\<close> and \<^verbatim>\<open>growMax\<close> rounds up to \<^verbatim>\<open>5 + 2^(-50)\<close>.
\<close>

theorem adjustStepImpl_growth_counterexample:
  "adjustStepImpl (Finite 0) (Finite 1) = (True, Finite (5 + 1 / 2 ^ 50)) \<and>
   f_mul MAX_FACTOR (Finite 1) = Finite 5 \<and> (5::real) < 5 + 1 / 2 ^ 50"
proof -
  have flpos: "0 < errorFloor" by (simp add: errorFloor_def)
  have th: "0 < growThreshold" by (simp add: growThreshold_def)
  have gneg: "growExponent \<noteq> 0" using stepper_value_bounds by simp
  have "\<bar>growMax\<bar> < 2 ^ 1024" by (simp add: growMax_def)
  then have p: "rnd (errorFloor powr growExponent) = Finite growMax"
    by (simp add: rnd_def floor_power_rnd)
  have one: "rnd growFactorMax = Finite growFactorMax"
    unfolding growFactorMax_def
    by (rule rnd_representable [of _ 5629499534213121 "- 50"]) (simp_all add: power_int_minus)
  have "adjustStepImpl (Finite 0) (Finite 1) = (True, Finite growFactorMax)"
    unfolding adjustStepImpl_def growThreshold_val errorFloor_val growExponent_val
    unfolding SAFETY_val
    using flpos th gneg
    by (simp add: Let_def f_isnan_def f_max_def p growFactorMax_val one)
  then show ?thesis by (simp add: growFactorMax_exceeds MAX_FACTOR_def)
qed




section \<open>Properties of the distance constraint\<close>

lemma getFrameIdx_from_bound:
  "getFrameIdx_from i fs n = Some k \<Longrightarrow> i \<le> k \<and> k < i + length fs"
proof (induction fs arbitrary: i)
  case Nil
  then show ?case by simp
next
  case (Cons f fs)
  show ?case
  proof (cases "frameName f = n")
    case True
    with Cons.prems show ?thesis by simp
  next
    case False
    with Cons.prems have "getFrameIdx_from (Suc i) fs n = Some k" by simp
    from Cons.IH [OF this] show ?thesis by simp
  qed
qed

lemma getFrameIdx_SUCCESS:
  "getFrameIdx model n old = (SUCCESS, k) \<Longrightarrow> k < length (frames model)"
  using getFrameIdx_from_bound [of 0 "frames model" n k]
  by (auto simp: getFrameIdx_def split: option.splits)

lemma getFrameIdx_old: "fst (getFrameIdx model n old) = SUCCESS \<Longrightarrow> getFrameIdx model n old' = getFrameIdx model n old"
  by (auto simp: getFrameIdx_def split: option.splits)

lemma reset_SUCCESS_D:
  assumes "DistanceConstraint_reset modelWeak c = (SUCCESS, c')"
  shows "\<exists>model. modelWeak = Some model \<and>
           fst (frameIndices c') < length (frames model) \<and>
           snd (frameIndices c') < length (frames model) \<and>
           distanceRef c' = norm3 (deltaPosition model (frameIndices c')) \<and>
           isAttached c' = isAttached c \<and> kp c' = kp c \<and> kd c' = kd c"
  using assms
  by (auto simp: DistanceConstraint_reset_def Let_def split: option.splits prod.splits if_splits
      dest: getFrameIdx_SUCCESS)

lemma reset_ignores_distanceRef:
  "DistanceConstraint_reset modelWeak (c\<lparr>distanceRef := d\<rparr>) =
     (case DistanceConstraint_reset modelWeak c of
        (rc, c') \<Rightarrow> (rc, if rc = SUCCESS then c' else c'\<lparr>distanceRef := d\<rparr>))"
  by (auto simp: DistanceConstraint_reset_def Let_def split: option.splits prod.splits if_splits)

lemma rnd_minus_one [simp]: "rnd (- 1) = Finite (- 1)"
  using rnd_of_int [of "- 1"] by simp

lemma f_sub_same [simp]: "f_sub (Finite a) (Finite a) = Finite 0"
  by simp

lemma f_mul_zero_right [simp]: "f_mul (Finite a) (Finite 0) = Finite 0"
  by simp

text \<open>
  The distance of two frames is finite when their coordinates are finite and of magnitude at
  most \<^verbatim>\<open>2^510\<close>: no square and no sum of squares overflows then.
\<close>

lemma rnd_bounded:
  assumes "0 \<le> x" "x \<le> of_int m * 2 powi e" "\<bar>m\<bar> < 2 ^ 53" "- 1074 \<le> e"
    and "of_int m * 2 powi e < (2::real) ^ 1024"
  shows "\<exists>r. rnd x = Finite r \<and> 0 \<le> r \<and> r \<le> of_int m * 2 powi e"
proof -
  let ?b = "of_int m * 2 powi e :: real"
  have rep: "rnd_real ?b = ?b"
    by (rule rnd_real_representable [OF refl assms(3) assms(4)])
  from assms(1) assms(2) have "- ?b \<le> x" by linarith
  from rnd_within [OF this assms(2) rep assms(5)] rnd_real_nonneg [OF assms(1)]
  show ?thesis by blast
qed

lemma difference_bounded:
  assumes "\<bar>a\<bar> \<le> 2 ^ 510" "\<bar>b\<bar> \<le> 2 ^ 510"
  shows "\<exists>d. f_sub (Finite a) (Finite b) = Finite d \<and> \<bar>d\<bar> \<le> 2 ^ 511"
proof -
  let ?b = "of_int 1 * 2 powi 511 :: real"
  have rep: "rnd_real ?b = ?b"
    by (rule rnd_real_representable [OF refl]) simp_all
  have lt: "?b < 2 ^ 1024" by simp
  from assms have "- ?b \<le> a - b" "a - b \<le> ?b" by simp_all
  from rnd_within [OF this rep lt] show ?thesis by (simp add: abs_le_iff)
qed

lemma square_bounded:
  assumes "\<bar>d\<bar> \<le> 2 ^ 511"
  shows "\<exists>s. f_mul (Finite d) (Finite d) = Finite s \<and> 0 \<le> s \<and> s \<le> 2 ^ 1022"
proof -
  have "d * d = \<bar>d\<bar> * \<bar>d\<bar>" by simp
  also have "\<dots> \<le> 2 ^ 511 * 2 ^ 511"
    by (intro mult_mono assms) simp_all
  finally have "d * d \<le> of_int 1 * 2 powi 1022" by simp
  from rnd_bounded [OF _ this] show ?thesis by simp
qed

lemma squaredNorm_bounded:
  assumes "\<bar>x\<bar> \<le> 2 ^ 511" "\<bar>y\<bar> \<le> 2 ^ 511" "\<bar>z\<bar> \<le> 2 ^ 511"
  shows "\<exists>t. squaredNorm (Finite x, Finite y, Finite z) = Finite t \<and> 0 \<le> t \<and>
           t \<le> 3 * 2 ^ 1022"
proof -
  from square_bounded [OF assms(1)] obtain sx where
    sx: "f_mul (Finite x) (Finite x) = Finite sx" "0 \<le> sx" "sx \<le> 2 ^ 1022" by blast
  from square_bounded [OF assms(2)] obtain sy where
    sy: "f_mul (Finite y) (Finite y) = Finite sy" "0 \<le> sy" "sy \<le> 2 ^ 1022" by blast
  from square_bounded [OF assms(3)] obtain sz where
    sz: "f_mul (Finite z) (Finite z) = Finite sz" "0 \<le> sz" "sz \<le> 2 ^ 1022" by blast
  from sx sy have "0 \<le> sx + sy" "sx + sy \<le> of_int 1 * 2 powi 1023" by simp_all
  from rnd_bounded [OF this] obtain u where
    u: "rnd (sx + sy) = Finite u" "0 \<le> u" "u \<le> 2 ^ 1023" by auto
  from u sz have "0 \<le> u + sz" "u + sz \<le> of_int 3 * 2 powi 1022" by simp_all
  from rnd_bounded [OF this] obtain t where
    t: "rnd (u + sz) = Finite t" "0 \<le> t" "t \<le> 3 * 2 ^ 1022" by auto
  have "squaredNorm (Finite x, Finite y, Finite z) = Finite t"
    using sx(1) sy(1) sz(1) by (simp add: squaredNorm_def u(1) t(1) del: f_mul.simps)
  with t show ?thesis by blast
qed

lemma sqrt_bounded:
  assumes "0 \<le> t" "t \<le> 3 * 2 ^ 1022"
  shows "\<exists>n. f_sqrt (Finite t) = Finite n \<and> 0 \<le> n"
proof -
  have "sqrt t \<le> of_int 3 * 2 powi 1022"
  proof (cases "t \<le> 1")
    case True
    then have "sqrt t \<le> 1" by simp
    moreover have "(1::real) \<le> of_int 3 * 2 powi 1022" by simp
    ultimately show ?thesis by (rule order_trans)
  next
    case False
    then have "sqrt t \<le> t" by (simp add: sqrt_le_D real_le_lsqrt power2_eq_square)
    with assms show ?thesis by simp
  qed
  from rnd_bounded [OF _ this] assms obtain n where "rnd (sqrt t) = Finite n" "0 \<le> n"
    by auto
  with assms show ?thesis by (simp add: not_less [symmetric])
qed

lemma boundedCoordinateD:
  "boundedCoordinate c \<Longrightarrow> \<exists>x. c = Finite x \<and> \<bar>x\<bar> \<le> 2 ^ 510"
  by (cases c) (simp_all add: boundedCoordinate_def)

lemma boundedVectorD:
  assumes "boundedVector v"
  shows "\<exists>x y z. v = (Finite x, Finite y, Finite z) \<and>
           \<bar>x\<bar> \<le> 2 ^ 510 \<and> \<bar>y\<bar> \<le> 2 ^ 510 \<and> \<bar>z\<bar> \<le> 2 ^ 510"
proof -
  obtain cx cy cz where v: "v = (cx, cy, cz)" by (cases v) auto
  with assms have "boundedCoordinate cx" "boundedCoordinate cy" "boundedCoordinate cz"
    by simp_all
  from this [THEN boundedCoordinateD] v show ?thesis by blast
qed

lemma norm3_finite:
  assumes "boundedVector a" "boundedVector b"
  shows "\<exists>n. norm3 (v_sub a b) = Finite n \<and> 0 \<le> n"
proof -
  from boundedVectorD [OF assms(1)] obtain x1 y1 z1 where
    a: "a = (Finite x1, Finite y1, Finite z1)"
       "\<bar>x1\<bar> \<le> 2 ^ 510" "\<bar>y1\<bar> \<le> 2 ^ 510" "\<bar>z1\<bar> \<le> 2 ^ 510"
    by blast
  from boundedVectorD [OF assms(2)] obtain x2 y2 z2 where
    b: "b = (Finite x2, Finite y2, Finite z2)"
       "\<bar>x2\<bar> \<le> 2 ^ 510" "\<bar>y2\<bar> \<le> 2 ^ 510" "\<bar>z2\<bar> \<le> 2 ^ 510"
    by blast
  from difference_bounded [OF a(2) b(2)] obtain dx where
    dx: "f_sub (Finite x1) (Finite x2) = Finite dx" "\<bar>dx\<bar> \<le> 2 ^ 511" by blast
  from difference_bounded [OF a(3) b(3)] obtain dy where
    dy: "f_sub (Finite y1) (Finite y2) = Finite dy" "\<bar>dy\<bar> \<le> 2 ^ 511" by blast
  from difference_bounded [OF a(4) b(4)] obtain dz where
    dz: "f_sub (Finite z1) (Finite z2) = Finite dz" "\<bar>dz\<bar> \<le> 2 ^ 511" by blast
  have d: "v_sub a b = (Finite dx, Finite dy, Finite dz)"
    using dx(1) dy(1) dz(1) by (simp add: a(1) b(1) del: f_sub.simps)
  from squaredNorm_bounded [OF dx(2) dy(2) dz(2)] obtain t where
    t: "squaredNorm (Finite dx, Finite dy, Finite dz) = Finite t" "0 \<le> t" "t \<le> 3 * 2 ^ 1022"
    by blast
  from sqrt_bounded [OF t(2) t(3)] show ?thesis
    by (simp add: norm3_def d t(1) del: f_sqrt.simps)
qed

text \<open>
  Example inputs: a model with the frames \<^verbatim>\<open>A\<close> at the origin and \<^verbatim>\<open>B\<close> at \<^verbatim>\<open>(1, 0, 0)\<close>,
  both at rest, and an attached constraint between them.
\<close>

abbreviation (input) origin3 :: Vector3d where
  "origin3 \<equiv> (Finite 0, Finite 0, Finite 0)"

abbreviation (input) twoFrameModel :: Model where
  "twoFrameModel \<equiv>
     \<lparr>nv = 0,
      frames =
        [\<lparr>frameName = ''A'', translation = origin3,
          frameVelocity = \<lparr>linear = origin3, angular = origin3\<rparr>,
          frameAcceleration = \<lparr>linear = origin3, angular = origin3\<rparr>, frameJacobian = []\<rparr>,
         \<lparr>frameName = ''B'', translation = (Finite 1, Finite 0, Finite 0),
          frameVelocity = \<lparr>linear = origin3, angular = origin3\<rparr>,
          frameAcceleration = \<lparr>linear = origin3, angular = origin3\<rparr>, frameJacobian = []\<rparr>]\<rparr>"

abbreviation (input) constraintAB :: DistanceConstraint where
  "constraintAB \<equiv>
     \<lparr>isAttached = True, kp = Finite 100, kd = Finite 20, frameNames = (''A'', ''B''),
      frameIndices = (0, 0), distanceRef = Finite 0, frameJacobians = ([], []), jacobian = [],
      drift = Finite 0, lambda = Finite 0\<rparr>"

abbreviation (input) farFrameModel :: Model where
  "farFrameModel \<equiv>
     \<lparr>nv = 0,
      frames =
        [\<lparr>frameName = ''A'', translation = origin3,
          frameVelocity = \<lparr>linear = origin3, angular = origin3\<rparr>,
          frameAcceleration = \<lparr>linear = origin3, angular = origin3\<rparr>, frameJacobian = []\<rparr>,
         \<lparr>frameName = ''B'', translation = (Finite farCoordinate, Finite 0, Finite 0),
          frameVelocity = \<lparr>linear = origin3, angular = origin3\<rparr>,
          frameAcceleration = \<lparr>linear = origin3, angular = origin3\<rparr>, frameJacobian = []\<rparr>]\<rparr>"

lemma reset_example:
  "DistanceConstraint_reset (Some twoFrameModel) (constraintAB\<lparr>distanceRef := d\<rparr>) =
     (SUCCESS, constraintAB\<lparr>frameIndices := (0, 1), distanceRef := Finite 1\<rparr>)"
  by (simp add: DistanceConstraint_reset_def getFrameIdx_def deltaPosition_def norm3_def
      squaredNorm_def)

lemma far_isDouble: "isDouble (Finite farCoordinate)"
proof -
  have "rnd (of_int 1 * 2 powi 600) = Finite (of_int 1 * 2 powi 600)"
    by (rule rnd_representable [OF refl]) simp_all
  then show ?thesis by (simp add: isDouble_def farCoordinate_def)
qed

lemma far_difference: "f_sub (Finite 0) (Finite farCoordinate) = Finite (- farCoordinate)"
proof -
  have "rnd (of_int (- 1) * 2 powi 600) = Finite (of_int (- 1) * 2 powi 600)"
    by (rule rnd_representable [OF refl]) simp_all
  then show ?thesis by (simp add: farCoordinate_def)
qed

lemma far_square: "f_mul (Finite (- farCoordinate)) (Finite (- farCoordinate)) = PInf"
proof -
  have "(2::real) ^ 1024 \<le> 2 ^ 1200" by (rule power_increasing) simp_all
  also have "\<dots> = - farCoordinate * - farCoordinate"
    by (simp add: farCoordinate_def flip: power_add)
  finally show ?thesis by (simp add: rnd_PInf del: minus_mult_minus)
qed

text \<open>
  Claim C3, as amended. A successful \<^verbatim>\<open>reset\<close> stores the current distance between the two
  frames as the reference distance whether or not \<^verbatim>\<open>setReferenceDistance\<close> was called
  before: the call leaves no trace in the result of \<^verbatim>\<open>reset\<close>.
\<close>

theorem reset_overwrites_distanceRef:
  assumes "fst (DistanceConstraint_reset modelWeak (snd (setReferenceDistance d c))) = SUCCESS"
  shows "DistanceConstraint_reset modelWeak (snd (setReferenceDistance d c)) =
           DistanceConstraint_reset modelWeak c \<and>
         (\<exists>model. modelWeak = Some model \<and>
            getReferenceDistance
                (snd (DistanceConstraint_reset modelWeak (snd (setReferenceDistance d c)))) =
              norm3 (deltaPosition model
                (frameIndices (snd (DistanceConstraint_reset modelWeak c)))))"
proof -
  obtain c' where c': "DistanceConstraint_reset modelWeak (snd (setReferenceDistance d c)) = (SUCCESS, c')"
    using assms by (cases "DistanceConstraint_reset modelWeak (snd (setReferenceDistance d c))") simp
  have same: "DistanceConstraint_reset modelWeak (snd (setReferenceDistance d c)) =
      DistanceConstraint_reset modelWeak c"
  proof (cases "f_less d (Finite 0)")
    case True
    then show ?thesis by (simp add: setReferenceDistance_def)
  next
    case False
    with c' show ?thesis
      by (simp add: setReferenceDistance_def reset_ignores_distanceRef split: prod.splits if_splits)
  qed
  from reset_SUCCESS_D [OF c'] obtain model where
    "modelWeak = Some model" "distanceRef c' = norm3 (deltaPosition model (frameIndices c'))"
    by blast
  with same c' show ?thesis
    by (simp add: getReferenceDistance_def)
qed

text \<open>
  The amended claim at the example: after \<^verbatim>\<open>setReferenceDistance(2)\<close>, \<^verbatim>\<open>reset\<close> succeeds and
  gives what it gives without the call.
\<close>

theorem reset_overwrites_distanceRef_witness:
  "fst (DistanceConstraint_reset (Some twoFrameModel)
          (snd (setReferenceDistance (Finite 2) constraintAB))) = SUCCESS \<and>
   DistanceConstraint_reset (Some twoFrameModel)
          (snd (setReferenceDistance (Finite 2) constraintAB)) =
     DistanceConstraint_reset (Some twoFrameModel) constraintAB"
proof -
  have "fst (DistanceConstraint_reset (Some twoFrameModel)
          (snd (setReferenceDistance (Finite 2) constraintAB))) = SUCCESS"
    using reset_example [of "Finite 2"] by (simp add: setReferenceDistance_def)
  with reset_overwrites_distanceRef [OF this] show ?thesis
    by blast
qed

text \<open>
  Claim C3 as stated fails: \<^verbatim>\<open>setReferenceDistance(2)\<close> succeeds, the following \<^verbatim>\<open>reset\<close>
  succeeds with the frames one unit apart, and the reference distance is then 1, not 2.
\<close>

theorem reset_preserves_distanceRef_counterexample:
  "fst (setReferenceDistance (Finite 2) constraintAB) = SUCCESS \<and>
   getReferenceDistance (snd (setReferenceDistance (Finite 2) constraintAB)) = Finite 2 \<and>
   fst (DistanceConstraint_reset (Some twoFrameModel)
          (snd (setReferenceDistance (Finite 2) constraintAB))) = SUCCESS \<and>
   getReferenceDistance
     (snd (DistanceConstraint_reset (Some twoFrameModel)
             (snd (setReferenceDistance (Finite 2) constraintAB)))) = Finite 1"
  using reset_example [of "Finite 2"]
  by (simp add: setReferenceDistance_def getReferenceDistance_def)

text \<open>
  Claim C6, as amended. If \<^verbatim>\<open>reset\<close> succeeds and the reference distance it stores is finite,
  then \<^verbatim>\<open>computeJacobianAndDrift\<close> on the constraint it returns, with the same model, succeeds
  once the constraint is attached; the residual \<^verbatim>\<open>deltaPositionNorm - distanceRef_\<close> is
  exactly zero, so for a finite gain the term \<^verbatim>\<open>kp_ * residual\<close> is zero and the drift is
  the one computed with \<^verbatim>\<open>kp_ = 0\<close>. By lemma \<^verbatim>\<open>norm3_finite\<close> the stored distance is finite
  whenever the coordinates of the two frames are finite and of magnitude at most \<^verbatim>\<open>2^510\<close>.
\<close>

theorem residual_zero_after_reset:
  assumes "DistanceConstraint_reset (Some model) c = (SUCCESS, c')"
    and "isAttached c'"
    and "distanceRef c' = Finite n"
    and "kp c' = Finite k"
  shows "constraintResidual model c' = Finite 0 \<and>
         f_mul (kp c') (constraintResidual model c') = Finite 0 \<and>
         (\<exists>c''. computeJacobianAndDrift (Some model) c' = Some (SUCCESS, c'') \<and>
            computeJacobianAndDrift (Some model) (c'\<lparr>kp := Finite 0\<rparr>) =
              Some (SUCCESS, c''\<lparr>kp := Finite 0\<rparr>))"
proof -
  from reset_SUCCESS_D [OF assms(1)] have
    idx: "fst (frameIndices c') < length (frames model)"
         "snd (frameIndices c') < length (frames model)" and
    ref: "distanceRef c' = norm3 (deltaPosition model (frameIndices c'))"
    by simp_all
  from ref assms(3) have n: "norm3 (deltaPosition model (frameIndices c')) = Finite n"
    by simp
  have res: "constraintResidual model c' = Finite 0"
    unfolding constraintResidual_def n assms(3) by (rule f_sub_same)
  have res0: "constraintResidual model (c'\<lparr>kp := Finite 0\<rparr>) = Finite 0"
    using res by (simp add: constraintResidual_def)
  have mul: "f_mul (kp c') (constraintResidual model c') = Finite 0"
    unfolding res assms(4) by (rule f_mul_zero_right)
  have mul0: "f_mul (Finite 0) (Finite 0) = Finite 0"
    by (rule f_mul_zero_right)
  have "\<exists>c''. computeJacobianAndDrift (Some model) c' = Some (SUCCESS, c'') \<and>
      computeJacobianAndDrift (Some model) (c'\<lparr>kp := Finite 0\<rparr>) =
        Some (SUCCESS, c''\<lparr>kp := Finite 0\<rparr>)"
    using idx assms(2)
    by (simp add: computeJacobianAndDrift_def Let_def res res0 assms(4) mul0
        del: f_mul.simps f_add.simps f_sub.simps f_div.simps f_pow.simps)
  with res mul show ?thesis
    by blast
qed

text \<open>
  The amended claim at the example: \<^verbatim>\<open>reset\<close> stores the distance 1, the residual is zero and
  \<^verbatim>\<open>computeJacobianAndDrift\<close> succeeds.
\<close>

theorem residual_zero_after_reset_witness:
  "DistanceConstraint_reset (Some twoFrameModel) constraintAB =
     (SUCCESS, constraintAB\<lparr>frameIndices := (0, 1), distanceRef := Finite 1\<rparr>) \<and>
   constraintResidual twoFrameModel
     (constraintAB\<lparr>frameIndices := (0, 1), distanceRef := Finite 1\<rparr>) = Finite 0 \<and>
   fst (the (computeJacobianAndDrift (Some twoFrameModel)
     (constraintAB\<lparr>frameIndices := (0, 1), distanceRef := Finite 1\<rparr>))) = SUCCESS"
proof -
  have r: "DistanceConstraint_reset (Some twoFrameModel) constraintAB =
      (SUCCESS, constraintAB\<lparr>frameIndices := (0, 1), distanceRef := Finite 1\<rparr>)"
    using reset_example [of "Finite 0"] by simp
  from residual_zero_after_reset [OF r, of 1 100] show ?thesis
    using r by auto
qed

text \<open>
  Claim C6 as stated fails where the squared distance overflows: with the frames at the
  origin and at \<^verbatim>\<open>(2^600, 0, 0)\<close>, two distinct positions with finite coordinates, \<^verbatim>\<open>reset\<close>
  succeeds and stores an infinite reference distance, and at the same state the residual
  \<^verbatim>\<open>deltaPositionNorm - distanceRef_\<close> is the difference of two infinities, a not-a-number,
  as is the term \<^verbatim>\<open>kp_ * residual\<close>.
\<close>

theorem residual_zero_after_reset_counterexample:
  "isDouble (Finite farCoordinate) \<and>
   translation (frames farFrameModel ! 0) \<noteq> translation (frames farFrameModel ! 1) \<and>
   isFinite3 (translation (frames farFrameModel ! 0)) \<and>
   isFinite3 (translation (frames farFrameModel ! 1)) \<and>
   DistanceConstraint_reset (Some farFrameModel) constraintAB =
     (SUCCESS, constraintAB\<lparr>frameIndices := (0, 1), distanceRef := PInf\<rparr>) \<and>
   constraintResidual farFrameModel
     (constraintAB\<lparr>frameIndices := (0, 1), distanceRef := PInf\<rparr>) = NaN \<and>
   f_mul (kp constraintAB) NaN = NaN"
proof -
  have pos: "(0::real) < farCoordinate" by (simp add: farCoordinate_def)
  have d: "v_sub origin3 (Finite farCoordinate, Finite 0, Finite 0) =
      (Finite (- farCoordinate), Finite 0, Finite 0)"
    by (simp add: far_difference del: f_sub.simps)
  have n: "norm3 (v_sub origin3 (Finite farCoordinate, Finite 0, Finite 0)) = PInf"
    unfolding d by (simp add: norm3_def squaredNorm_def far_square del: f_mul.simps)
  have "DistanceConstraint_reset (Some farFrameModel) constraintAB =
     (SUCCESS, constraintAB\<lparr>frameIndices := (0, 1), distanceRef := PInf\<rparr>)"
    unfolding DistanceConstraint_reset_def getFrameIdx_def deltaPosition_def
    by (simp add: n del: v_sub.simps)
  moreover have "constraintResidual farFrameModel
     (constraintAB\<lparr>frameIndices := (0, 1), distanceRef := PInf\<rparr>) = NaN"
    unfolding constraintResidual_def deltaPosition_def
    by (simp add: n del: v_sub.simps)
  ultimately show ?thesis
    using pos far_isDouble by (simp add: isFinite3_def)
qed

section \<open>Properties of the recorder\<close>

subsection \<open>Writing to a device\<close>

lemma device_write_at:
  assumes "buffer dev = pre @ post" and "currentPos dev = length pre"
  shows "snd (device_write data dev) =
           dev\<lparr>buffer := pre @ take (length post) data @ drop (length data) post,
               currentPos := length pre + min (length data) (length post)\<rparr>"
  using assms by (simp add: device_write_def bytesAvailable_def Let_def min_def)

lemma device_write_fits:
  assumes "buffer dev = pre @ post" and "currentPos dev = length pre"
    and "length data \<le> length post"
  shows "device_write data dev =
           (SUCCESS, dev\<lparr>buffer := pre @ data @ drop (length data) post,
               currentPos := length pre + length data\<rparr>)"
  using assms by (simp add: device_write_def bytesAvailable_def Let_def min_def)

lemma device_write_full:
  assumes "bytesAvailable dev = 0" and "currentPos dev \<le> length (buffer dev)"
  shows "snd (device_write data dev) = dev"
  using assms by (simp add: device_write_def bytesAvailable_def Let_def)

lemma length_wordsBytes [simp]: "length (wordsBytes ws) = 8 * length ws"
  by (induction ws) (simp_all add: wordsBytes_def)

lemma words64_wordsBytes [simp]: "words64 (wordsBytes ws) = ws"
  by (induction ws) (simp_all add: wordsBytes_def words64_append)

lemma length_valuesBytes [simp]: "length (valuesBytes registry) = 8 * length registry"
  by (simp add: valuesBytes_def)

lemma device_write_twice:
  assumes "currentPos dev \<le> length (buffer dev)"
  shows "snd (device_write b (snd (device_write a dev))) = snd (device_write (a @ b) dev)"
proof -
  define pre where "pre = take (currentPos dev) (buffer dev)"
  define post where "post = drop (currentPos dev) (buffer dev)"
  have buf: "buffer dev = pre @ post" and pos: "currentPos dev = length pre"
    using assms by (simp_all add: pre_def post_def)
  let ?dev1 = "snd (device_write a dev)"
  have d1: "?dev1 = dev\<lparr>buffer := (pre @ take (length post) a) @ drop (length a) post,
               currentPos := length pre + min (length a) (length post)\<rparr>"
    using device_write_at [OF buf pos, of a] by simp
  have "snd (device_write b ?dev1) =
      ?dev1\<lparr>buffer := (pre @ take (length post) a) @ take (length (drop (length a) post)) b @
                 drop (length b) (drop (length a) post),
             currentPos := length (pre @ take (length post) a) +
                 min (length b) (length (drop (length a) post))\<rparr>"
    by (rule device_write_at) (simp_all add: d1 min_def)
  then show ?thesis
    unfolding device_write_at [OF buf pos, of "a @ b"] d1
    by (simp add: min_def add.commute)
qed

lemma currentPos_device_write_le:
  "currentPos dev \<le> length (buffer dev) \<Longrightarrow>
     currentPos (snd (device_write a dev)) \<le> length (buffer (snd (device_write a dev)))"
  by (auto simp: device_write_def bytesAvailable_def Let_def min_def)

lemma writeValues_eq:
  "currentPos dev \<le> length (buffer dev) \<Longrightarrow>
     writeValues registry dev = snd (device_write (valuesBytes registry) dev)"
proof (induction registry arbitrary: dev)
  case Nil
  then show ?case
    by (simp add: writeValues_def valuesBytes_def wordsBytes_def device_write_def
        bytesAvailable_def Let_def)
next
  case (Cons keyValue registry)
  let ?dev1 = "snd (device_write (to_bytes (snd keyValue)) dev)"
  have "writeValues (keyValue # registry) dev = writeValues registry ?dev1"
    by (simp add: writeValues_def)
  also have "\<dots> = snd (device_write (valuesBytes registry) ?dev1)"
    by (rule Cons.IH) (rule currentPos_device_write_le [OF Cons.prems])
  also have "\<dots> = snd (device_write (to_bytes (snd keyValue) @ valuesBytes registry) dev)"
    by (rule device_write_twice [OF Cons.prems])
  finally show ?case
    by (simp add: valuesBytes_def wordsBytes_def)
qed

lemma length_encodeLine:
  "length (encodeLine K t d) =
     8 * length (integersRegistry d) + 8 * length (floatsRegistry d) +
       (length (START_LINE_TOKEN K) + 8)"
  by (simp add: encodeLine_def)

lemma write_line_eq:
  assumes "currentPos dev \<le> length (buffer dev)"
  shows "writeValues (floatsRegistry d)
           (writeValues (integersRegistry d)
             (snd (device_write (to_bytes t) (snd (device_write (START_LINE_TOKEN K) dev))))) =
         snd (device_write (encodeLine K t d) dev)"
proof -
  let ?d1 = "snd (device_write (START_LINE_TOKEN K) dev)"
  let ?d2 = "snd (device_write (to_bytes t) ?d1)"
  let ?d3 = "snd (device_write (valuesBytes (integersRegistry d)) ?d2)"
  have w1: "currentPos ?d1 \<le> length (buffer ?d1)"
    by (rule currentPos_device_write_le [OF assms])
  have w2: "currentPos ?d2 \<le> length (buffer ?d2)"
    by (rule currentPos_device_write_le [OF w1])
  have w3: "currentPos ?d3 \<le> length (buffer ?d3)"
    by (rule currentPos_device_write_le [OF w2])
  have "writeValues (floatsRegistry d) (writeValues (integersRegistry d) ?d2) =
      snd (device_write (valuesBytes (floatsRegistry d)) ?d3)"
    by (simp add: writeValues_eq [OF w2] writeValues_eq [OF w3])
  also have "\<dots> = snd (device_write (valuesBytes (integersRegistry d) @ valuesBytes (floatsRegistry d)) ?d2)"
    by (rule device_write_twice [OF w2])
  also have "\<dots> = snd (device_write (to_bytes t @ valuesBytes (integersRegistry d) @
      valuesBytes (floatsRegistry d)) ?d1)"
    by (rule device_write_twice [OF w1])
  also have "\<dots> = snd (device_write (encodeLine K t d) dev)"
    unfolding encodeLine_def by (rule device_write_twice [OF assms])
  finally show ?thesis .
qed

subsection \<open>Reading data lines back\<close>

lemma encodeLine_lineBytes: "encodeLine K t d = lineBytes K (snapshotLine t d)"
  by (simp add: encodeLine_def snapshotLine_def valuesBytes_def)

lemma length_lineBytes:
  "lineFits isz fsz l \<Longrightarrow> length (lineBytes K l) = length (START_LINE_TOKEN K) + 8 + isz + fsz"
  by (cases l) auto

lemma readData_at:
  assumes "buffer dev = pre @ data @ post" and "currentPos dev = length pre"
  shows "readData (length data) dev = (data, dev\<lparr>currentPos := length pre + length data\<rparr>)"
  using assms by (simp add: readData_def bytesAvailable_def Let_def)

lemma readDataLine_line:
  assumes tok: "startLineTokenFirst K \<noteq> 0"
    and buf: "buffer flow = pre @ lineBytes K (t, ints, floats) @ post"
    and pos: "currentPos flow = length pre"
    and fits: "lineFits isz fsz (t, ints, floats)"
  shows "readDataLine K isz fsz True flow =
           Some (DataLine t ints floats,
                 flow\<lparr>currentPos := length pre + length (lineBytes K (t, ints, floats))\<rparr>)"
proof -
  from tok obtain c tok' where T: "START_LINE_TOKEN K = c # tok'" and c: "startLineTokenFirst K = c"
    by (cases "START_LINE_TOKEN K") (simp_all add: startLineTokenFirst_def)
  let ?rest = "to_bytes t @ wordsBytes ints @ wordsBytes floats @ post"
  have b1: "buffer flow = pre @ [c] @ (tok' @ ?rest)"
    using buf T by simp
  from readData_at [OF b1 pos] have r1:
    "readData 1 flow = ([c], flow\<lparr>currentPos := length pre + 1\<rparr>)"
    by simp
  let ?flow1 = "flow\<lparr>currentPos := length pre + 1\<rparr>"
  let ?flow2 = "flow\<lparr>currentPos := length pre + length (START_LINE_TOKEN K)\<rparr>"
  have s2: "snd (device_seek (currentPos ?flow1 + length (START_LINE_TOKEN K) - 1) ?flow1) = ?flow2"
    using b1 T by (simp add: device_seek_def)
  have b2: "buffer ?flow2 = (pre @ START_LINE_TOKEN K) @ to_bytes t @ (wordsBytes ints @ wordsBytes floats @ post)"
    using buf by simp
  have r2: "readData 8 ?flow2 = (to_bytes t, flow\<lparr>currentPos := length pre + length (START_LINE_TOKEN K) + 8\<rparr>)"
    using readData_at [OF b2] by simp
  let ?flow3 = "flow\<lparr>currentPos := length pre + length (START_LINE_TOKEN K) + 8\<rparr>"
  have b3: "buffer ?flow3 = (pre @ START_LINE_TOKEN K @ to_bytes t) @ wordsBytes ints @ (wordsBytes floats @ post)"
    using buf by simp
  have r3: "readData isz ?flow3 = (wordsBytes ints, flow\<lparr>currentPos := length pre + length (START_LINE_TOKEN K) + 8 + isz\<rparr>)"
    using readData_at [OF b3] fits by simp
  let ?flow4 = "flow\<lparr>currentPos := length pre + length (START_LINE_TOKEN K) + 8 + isz\<rparr>"
  have b4: "buffer ?flow4 = (pre @ START_LINE_TOKEN K @ to_bytes t @ wordsBytes ints) @ wordsBytes floats @ post"
    using buf by simp
  have r4: "readData fsz ?flow4 = (wordsBytes floats, flow\<lparr>currentPos := length pre + length (START_LINE_TOKEN K) + 8 + isz + fsz\<rparr>)"
    using readData_at [OF b4] fits by simp
  have avail: "\<not> bytesAvailable ?flow2 < 8 + isz + fsz"
    using buf fits by (simp add: bytesAvailable_def)
  have len: "length (lineBytes K (t, ints, floats)) = length (START_LINE_TOKEN K) + 8 + isz + fsz"
    by (rule length_lineBytes [OF fits])
  show ?thesis
    unfolding readDataLine_def Let_def r1 fst_conv snd_conv s2 r2 r3 r4 len
    using avail c by (simp add: add.assoc)
qed

lemma appendLines_Nil [simp]: "appendLines [] logData = logData"
  by (simp add: appendLines_def)

lemma appendLines_Cons:
  "appendLines ((t, ints, floats) # lines) logData =
     appendLines lines
       (logData\<lparr>timestamps := timestamps logData @ [t], intData := intData logData @ [ints],
                floatData := floatData logData @ [floats]\<rparr>)"
  by (simp add: appendLines_def)

lemma appendLines_append: "appendLines (a @ b) logData = appendLines b (appendLines a logData)"
  by (simp add: appendLines_def)

lemma readDataLines_lines:
  assumes tok: "startLineTokenFirst K \<noteq> 0"
    and fits: "\<forall>l\<in>set lines. lineFits isz fsz l"
    and buf: "buffer flow = pre @ concat (map (lineBytes K) lines) @ replicate z 0"
    and pos: "currentPos flow = length pre"
    and room: "length (timestamps logData) + length lines \<le> numData"
  shows "\<exists>p. readDataLines K isz fsz numData logData flow =
           Some (appendLines lines logData, flow\<lparr>currentPos := p\<rparr>)"
  using fits buf pos room
proof (induction lines arbitrary: pre logData flow)
  case Nil
  show ?case
  proof (cases "z = 0")
    case True
    with Nil have "bytesAvailable flow = 0"
      by (simp add: bytesAvailable_def)
    then have "readDataLines K isz fsz numData logData flow =
        Some (appendLines [] logData, flow\<lparr>currentPos := currentPos flow\<rparr>)"
      by (simp add: readDataLines.simps)
    then show ?thesis
      by (rule exI)
  next
    case False
    then obtain z' where z: "z = Suc z'"
      by (cases z) simp_all
    with Nil have b: "buffer flow = pre @ [0] @ replicate z' 0" and avail: "0 < bytesAvailable flow"
      by (simp_all add: bytesAvailable_def)
    from readData_at [OF b Nil.prems(3)] have
      "readData 1 flow = ([0], flow\<lparr>currentPos := length pre + 1\<rparr>)"
      by simp
    with tok have "readDataLine K isz fsz (length (timestamps logData) < numData) flow =
        Some (EndOfData, flow\<lparr>currentPos := length pre + 1\<rparr>)"
      by (simp add: readDataLine_def)
    with avail have "readDataLines K isz fsz numData logData flow =
        Some (appendLines [] logData, flow\<lparr>currentPos := length pre + 1\<rparr>)"
      by (simp add: readDataLines.simps)
    then show ?thesis
      by (rule exI)
  qed
next
  case (Cons l lines)
  obtain t ints floats where l: "l = (t, ints, floats)"
    by (cases l) auto
  from Cons.prems(1) l have fit: "lineFits isz fsz (t, ints, floats)"
    by simp
  let ?post = "concat (map (lineBytes K) lines) @ replicate z 0"
  have b: "buffer flow = pre @ lineBytes K (t, ints, floats) @ ?post"
    using Cons.prems(2) l by simp
  have avail: "0 < bytesAvailable flow"
    using b Cons.prems(3) by (simp add: bytesAvailable_def)
  from Cons.prems(4) have "length (timestamps logData) < numData"
    by simp
  with readDataLine_line [OF tok b Cons.prems(3) fit] have one:
    "readDataLine K isz fsz (length (timestamps logData) < numData) flow =
       Some (DataLine t ints floats,
             flow\<lparr>currentPos := length pre + length (lineBytes K (t, ints, floats))\<rparr>)"
    by simp
  let ?flow' = "flow\<lparr>currentPos := length pre + length (lineBytes K (t, ints, floats))\<rparr>"
  let ?logData' = "logData\<lparr>timestamps := timestamps logData @ [t],
      intData := intData logData @ [ints], floatData := floatData logData @ [floats]\<rparr>"
  have step: "readDataLines K isz fsz numData logData flow =
      readDataLines K isz fsz numData ?logData' ?flow'"
    using avail one by (subst readDataLines.simps) simp
  have "\<exists>p. readDataLines K isz fsz numData ?logData' ?flow' =
      Some (appendLines lines ?logData', ?flow'\<lparr>currentPos := p\<rparr>)"
  proof (rule Cons.IH)
    show "\<forall>l\<in>set lines. lineFits isz fsz l"
      using Cons.prems(1) by simp
    show "buffer ?flow' = (pre @ lineBytes K (t, ints, floats)) @
        concat (map (lineBytes K) lines) @ replicate z 0"
      using b by simp
    show "currentPos ?flow' = length (pre @ lineBytes K (t, ints, floats))"
      by simp
    show "length (timestamps ?logData') + length lines \<le> numData"
      using Cons.prems(4) by simp
  qed
  then show ?case
    unfolding step l appendLines_Cons by simp
qed

subsection \<open>Chunks as header, lines and spare rows\<close>

lemma length_concat_lines:
  "\<forall>l\<in>set lines. lineFits isz fsz l \<Longrightarrow>
     length (concat (map (lineBytes K) lines)) =
       length lines * (length (START_LINE_TOKEN K) + 8 + isz + fsz)"
  by (induction lines) (simp_all add: length_lineBytes)

lemma seek_back:
  "currentPos dev \<le> length (buffer dev) \<Longrightarrow>
     snd (device_seek (currentPos dev) (dev\<lparr>currentPos := p\<rparr>)) = dev"
  by (simp add: device_seek_def)

lemma parse_chunk_lines:
  assumes tok: "startLineTokenFirst K \<noteq> 0"
    and rs: "rowSize = length (START_LINE_TOKEN K) + 8 + isz + fsz"
    and fits: "\<forall>l\<in>set (chunkLines c). lineFits isz fsz l"
    and flow: "flow = (chunkDevice K rowSize c)\<lparr>currentPos := length (chunkHeader c)\<rparr>"
  shows "\<exists>p. readDataLines K isz fsz
               (length (timestamps logData) + bytesAvailable flow div rowSize) logData flow =
             Some (appendLines (chunkLines c) logData, flow\<lparr>currentPos := p\<rparr>)"
proof -
  have pos: "0 < rowSize"
    using rs by simp
  have avail: "bytesAvailable flow = (length (chunkLines c) + chunkSpare c) * rowSize"
    unfolding flow using length_concat_lines [OF fits, of K] rs
    by (simp add: bytesAvailable_def chunkDevice_def add_mult_distrib)
  have room: "length (timestamps logData) + length (chunkLines c) \<le>
      length (timestamps logData) + bytesAvailable flow div rowSize"
    using pos by (simp add: avail)
  have buf: "buffer flow = chunkHeader c @ concat (map (lineBytes K) (chunkLines c)) @
      replicate (chunkSpare c * rowSize) 0"
    by (simp add: flow chunkDevice_def)
  have cur: "currentPos flow = length (chunkHeader c)"
    by (simp add: flow)
  from readDataLines_lines [OF tok fits buf cur room] show ?thesis .
qed

lemma chunkDevice_wf: "currentPos (chunkDevice K rowSize c) \<le> length (buffer (chunkDevice K rowSize c))"
  by (simp add: chunkDevice_def)

lemma timeUnit_appendLines [simp]: "timeUnit (appendLines lines logData) = timeUnit logData"
  and constants_appendLines [simp]: "constants (appendLines lines logData) = constants logData"
  and fieldnames_appendLines [simp]: "fieldnames (appendLines lines logData) = fieldnames logData"
  and version_appendLines [simp]: "version (appendLines lines logData) = version logData"
  by (simp_all add: appendLines_def)

lemma parseFlows_tail:
  assumes tok: "startLineTokenFirst K \<noteq> 0"
    and rs: "rowSize = length (START_LINE_TOKEN K) + 8 + isz + fsz"
    and al: "isz mod 8 = 0" "fsz mod 8 = 0"
    and hdr: "\<forall>c\<in>set cs. chunkHeader c = []"
    and fits: "\<forall>c\<in>set cs. \<forall>l\<in>set (chunkLines c). lineFits isz fsz l"
    and tu: "timeUnit logData = lookupTimeUnit K (constants logData)"
  shows "parseFlows K isz fsz hsz True logData (map (chunkDevice K rowSize) cs) =
           Some (SUCCESS, appendLines (concat (map chunkLines cs)) logData,
                 map (chunkDevice K rowSize) cs)"
  using hdr fits tu
proof (induction cs arbitrary: logData)
  case Nil
  show ?case by simp
next
  case (Cons c cs)
  let ?flow = "chunkDevice K rowSize c"
  let ?start = "?flow\<lparr>currentPos := length (chunkHeader c)\<rparr>"
  have h: "chunkHeader c = []"
    using Cons.prems(1) by simp
  have s0: "snd (device_seek 0 ?flow) = ?start"
    by (simp add: device_seek_def h)
  have ld: "logData\<lparr>timeUnit := lookupTimeUnit K (constants logData)\<rparr> = logData"
    using Cons.prems(3) by simp
  from Cons.prems(2) have f: "\<forall>l\<in>set (chunkLines c). lineFits isz fsz l"
    by simp
  from parse_chunk_lines [OF tok rs f refl, of logData] obtain p where
    p: "readDataLines K isz fsz
         (length (timestamps logData) + bytesAvailable ?start div rowSize) logData ?start =
        Some (appendLines (chunkLines c) logData, ?start\<lparr>currentPos := p\<rparr>)"
    by blast
  have restore: "snd (device_seek (currentPos ?flow) (?start\<lparr>currentPos := p\<rparr>)) = ?flow"
    using seek_back [OF chunkDevice_wf, of K rowSize c p] by simp
  have rest: "parseFlows K isz fsz hsz True (appendLines (chunkLines c) logData)
      (map (chunkDevice K rowSize) cs) =
      Some (SUCCESS, appendLines (concat (map chunkLines cs)) (appendLines (chunkLines c) logData),
            map (chunkDevice K rowSize) cs)"
    by (rule Cons.IH) (use Cons.prems in simp_all)
  show ?case
    using al p rest restore
    by (simp add: s0 ld rs [symmetric] appendLines_append Let_def)
qed

lemma readHeader_chunk:
  assumes dec: "headerDecodes K header cs names"
    and buf: "buffer flow = header @ post"
    and pos: "currentPos flow = 0"
  shows "readHeader K (length header) emptyLogData flow =
           Some (Inr (emptyLogData\<lparr>version := TELEMETRY_VERSION K, constants := cs,
                                    fieldnames := names\<rparr>,
                      flow\<lparr>currentPos := length header\<rparr>))"
proof -
  from dec have len: "4 \<le> length header"
    and ver: "of_bytes (take 4 header) = TELEMETRY_VERSION K"
    and ph: "parseHeader K (drop 4 header) = Some (cs, names)"
    by (simp_all add: headerDecodes_def)
  have b1: "buffer flow = [] @ take 4 header @ (drop 4 header @ post)"
    using buf by simp
  have r1: "readData 4 flow = (take 4 header, flow\<lparr>currentPos := 4\<rparr>)"
    using readData_at [OF b1] pos len by simp
  let ?flow1 = "flow\<lparr>currentPos := 4\<rparr>"
  have b2: "buffer ?flow1 = take 4 header @ drop 4 header @ post"
    using buf by simp
  have r2: "readData (length header - 4) ?flow1 =
      (drop 4 header, flow\<lparr>currentPos := length header\<rparr>)"
    using readData_at [OF b2] len by simp
  have avail: "\<not> bytesAvailable flow < 4"
    using buf pos len by (simp add: bytesAvailable_def)
  show ?thesis
    unfolding readHeader_def Let_def r1 fst_conv snd_conv
    using avail ver len ph by (simp add: r2 emptyLogData_def)
qed

lemma parseFlows_chunks:
  assumes tok: "startLineTokenFirst K \<noteq> 0"
    and rs: "rowSize = length (START_LINE_TOKEN K) + 8 + isz + fsz"
    and al: "isz mod 8 = 0" "fsz mod 8 = 0"
    and dec: "headerDecodes K header cs names"
    and first: "chunkHeader c = header"
    and hdr: "\<forall>c\<in>set chunks. chunkHeader c = []"
    and fits: "\<forall>c\<in>set (c # chunks). \<forall>l\<in>set (chunkLines c). lineFits isz fsz l"
  shows "parseFlows K isz fsz (length header) False emptyLogData
             (map (chunkDevice K rowSize) (c # chunks)) =
           Some (SUCCESS,
                 appendLines (concat (map chunkLines (c # chunks)))
                   (emptyLogData\<lparr>version := TELEMETRY_VERSION K, constants := cs,
                                  fieldnames := names, timeUnit := lookupTimeUnit K cs\<rparr>),
                 map (chunkDevice K rowSize) (c # chunks))"
proof -
  let ?flow = "chunkDevice K rowSize c"
  let ?start = "?flow\<lparr>currentPos := 0\<rparr>"
  let ?body = "?flow\<lparr>currentPos := length (chunkHeader c)\<rparr>"
  let ?ld1 = "emptyLogData\<lparr>version := TELEMETRY_VERSION K, constants := cs, fieldnames := names\<rparr>"
  let ?ld2 = "emptyLogData\<lparr>version := TELEMETRY_VERSION K, constants := cs,
      fieldnames := names, timeUnit := lookupTimeUnit K cs\<rparr>"
  have s0: "snd (device_seek 0 ?flow) = ?start"
    by (simp add: device_seek_def)
  have b: "buffer ?start = header @ concat (map (lineBytes K) (chunkLines c)) @
      replicate (chunkSpare c * rowSize) 0"
    by (simp add: chunkDevice_def first)
  from readHeader_chunk [OF dec b] have rh:
    "readHeader K (length header) emptyLogData ?start = Some (Inr (?ld1, ?body))"
    by (simp add: first)
  have ld: "?ld1\<lparr>timeUnit := lookupTimeUnit K (constants ?ld1)\<rparr> = ?ld2"
    by simp
  from fits have f: "\<forall>l\<in>set (chunkLines c). lineFits isz fsz l"
    by simp
  from parse_chunk_lines [OF tok rs f refl, of ?ld2] obtain p where
    p: "readDataLines K isz fsz
         (length (timestamps ?ld2) + bytesAvailable ?body div rowSize) ?ld2 ?body =
        Some (appendLines (chunkLines c) ?ld2, ?body\<lparr>currentPos := p\<rparr>)"
    by blast
  have restore: "snd (device_seek (currentPos ?flow) (?body\<lparr>currentPos := p\<rparr>)) = ?flow"
    using seek_back [OF chunkDevice_wf, of K rowSize c p] by simp
  have rest: "parseFlows K isz fsz (length header) True (appendLines (chunkLines c) ?ld2)
      (map (chunkDevice K rowSize) chunks) =
      Some (SUCCESS, appendLines (concat (map chunkLines chunks)) (appendLines (chunkLines c) ?ld2),
            map (chunkDevice K rowSize) chunks)"
    by (rule parseFlows_tail [OF tok rs al hdr]) (use fits in simp_all)
  show ?thesis
    using al p rest restore
    by (simp add: s0 rh ld rs [symmetric] appendLines_append Let_def del: logData_t.simps)
qed

subsection \<open>The recorder keeps its chunks in that form\<close>

lemma update_back_single [simp]: "update_back f [x] = [f x]"
  by (simp add: update_back_def)

lemma update_back_Cons [simp]: "update_back f (x # y # ys) = x # update_back f (y # ys)"
  by (simp add: update_back_def)

lemma update_back_append [simp]:
  "ys \<noteq> [] \<Longrightarrow> update_back f (xs @ ys) = xs @ update_back f ys"
  by (simp add: update_back_def butlast_append)

lemma chunkDevice_close:
  "device_close (chunkDevice K rs c) =
     chunkDevice K rs (Chunk (chunkHeader c) (chunkLines c) (chunkSpare c) False)"
  by (simp add: device_close_def chunkDevice_def)

lemma chunkDevice_new:
  "device_open (MemoryDevice_new (n * rs)) = (SUCCESS, chunkDevice K rs (Chunk [] [] n True))"
  by (simp add: device_open_def MemoryDevice_new_def chunkDevice_def)

lemma chunkDevice_write_line:
  assumes spare: "0 < chunkSpare c" and len: "length (lineBytes K l) = rs"
  shows "snd (device_write (lineBytes K l) (chunkDevice K rs c)) =
           chunkDevice K rs (Chunk (chunkHeader c) (chunkLines c @ [l]) (chunkSpare c - 1)
             (chunkOpen c))"
proof -
  let ?pre = "chunkHeader c @ concat (map (lineBytes K) (chunkLines c))"
  let ?post = "replicate (chunkSpare c * rs) (0 :: byte)"
  from spare obtain n where n: "chunkSpare c = Suc n"
    by (cases "chunkSpare c") simp_all
  have b: "buffer (chunkDevice K rs c) = ?pre @ ?post"
    and p: "currentPos (chunkDevice K rs c) = length ?pre"
    by (simp_all add: chunkDevice_def)
  have fit: "length (lineBytes K l) \<le> length ?post"
    using len n by simp
  have dr: "drop (length (lineBytes K l)) ?post = replicate (n * rs) 0"
    using len n by simp
  show ?thesis
    unfolding device_write_fits [OF b p fit] snd_conv dr
    by (simp add: chunkDevice_def n)
qed

lemma chunkDevice_full:
  assumes "0 < rs"
  shows "currentPos (chunkDevice K rs c) = length (buffer (chunkDevice K rs c)) \<longleftrightarrow>
           chunkSpare c = 0"
  using assms by (simp add: chunkDevice_def)

lemma chunk_snoc_pos:
  "currentPos (chunkDevice K rs (Chunk h (ls @ [l]) n opn)) =
     currentPos (chunkDevice K rs (Chunk h ls m opn')) + length (lineBytes K l)"
  by (simp add: chunkDevice_def)

lemma chunk_snoc_size:
  "length (lineBytes K l) = rs \<Longrightarrow> 0 < n \<Longrightarrow>
     length (buffer (chunkDevice K rs (Chunk h (ls @ [l]) (n - 1) opn))) =
     length (buffer (chunkDevice K rs (Chunk h ls n opn')))"
  by (cases n) (simp_all add: chunkDevice_def)

lemma chunk_collapse: "Chunk (chunkHeader c) (chunkLines c) (chunkSpare c) (chunkOpen c) = c"
  by (cases c) simp

lemma lineFits_snapshotLine:
  "8 * length (integersRegistry d) = isz \<Longrightarrow> 8 * length (floatsRegistry d) = fsz \<Longrightarrow>
     lineFits isz fsz (snapshotLine t d)"
  by (simp add: snapshotLine_def)

lemma flush_represents:
  assumes rep: "represents K header r (front @ [c])"
    and fit: "recordedBytesDataLine r \<le> TELEMETRY_MIN_BUFFER_SIZE K"
    and shape: "8 * length (integersRegistry d) = integerSectionSize r"
      "8 * length (floatsRegistry d) = floatSectionSize r"
    and q: "quantizeTime ts (timeUnitInv r) = Some t"
  shows "\<exists>r' front' c'.
           flushDataSnapshot K d ts r = Some (SUCCESS, r') \<and>
           represents K header r' (front' @ [c']) \<and>
           concat (map chunkLines (front' @ [c'])) =
             concat (map chunkLines (front @ [c])) @ [snapshotLine t d] \<and>
           sameConfig r r'"
proof -
  let ?rs = "recordedBytesDataLine r"
  let ?l = "snapshotLine t d"
  from rep have fl: "flows r = map (chunkDevice K ?rs) front @ [chunkDevice K ?rs c]"
    and hs: "map chunkHeader (front @ [c]) = header # replicate (length front) []"
    and fits: "list_all (\<lambda>c. list_all (lineFits (integerSectionSize r) (floatSectionSize r))
        (chunkLines c)) (front @ [c])"
    and rs: "?rs = length (START_LINE_TOKEN K) + 8 + integerSectionSize r + floatSectionSize r"
    and rb: "recordedBytes r = currentPos (chunkDevice K ?rs c)"
    and rl: "recordedBytesLimits r = length (buffer (chunkDevice K ?rs c))"
    by (simp_all add: represents_def laidOut_def)
  have pos: "0 < ?rs"
    using rs by simp
  have lf: "lineFits (integerSectionSize r) (floatSectionSize r) ?l"
    by (rule lineFits_snapshotLine [OF shape])
  have len: "length (lineBytes K ?l) = ?rs"
    using length_lineBytes [OF lf, of K] rs by simp
  have wl: "\<And>dev. currentPos dev \<le> length (buffer dev) \<Longrightarrow>
      writeValues (floatsRegistry d) (writeValues (integersRegistry d)
        (snd (device_write (to_bytes t) (snd (device_write (START_LINE_TOKEN K) dev))))) =
      snd (device_write (lineBytes K ?l) dev)"
    by (simp add: write_line_eq encodeLine_lineBytes)
  show ?thesis
  proof (cases "chunkSpare c = 0")
    case False
    then have spare: "0 < chunkSpare c" by simp
    let ?c' = "Chunk (chunkHeader c) (chunkLines c @ [?l]) (chunkSpare c - 1) (chunkOpen c)"
    let ?r' = "r\<lparr>flows := map (chunkDevice K ?rs) front @ [chunkDevice K ?rs ?c'],
                recordedBytes := recordedBytes r + ?rs\<rparr>"
    from False have ne: "recordedBytes r \<noteq> recordedBytesLimits r"
      using chunkDevice_full [OF pos, of K c] rb rl by simp
    have fl': "flushDataSnapshot K d ts r = Some (SUCCESS, ?r')"
      using ne q
      by (simp add: flushDataSnapshot_def fl wl [OF chunkDevice_wf]
          chunkDevice_write_line [OF spare len])
    have rep': "represents K header ?r' (front @ [?c'])"
      unfolding represents_def laidOut_def
    proof (intro conjI)
      show "flows ?r' = map (chunkDevice K (recordedBytesDataLine ?r')) (front @ [?c'])"
        by simp
      show "map chunkHeader (front @ [?c']) = header # replicate (length (front @ [?c']) - 1) []"
        using hs by simp
      show "list_all (\<lambda>c. list_all (lineFits (integerSectionSize ?r') (floatSectionSize ?r'))
          (chunkLines c)) (front @ [?c'])"
        using fits lf by simp
      show "headerSize ?r' = length header"
        using rep by (simp add: represents_def laidOut_def)
      show "recordedBytesDataLine ?r' =
          length (START_LINE_TOKEN K) + 8 + integerSectionSize ?r' + floatSectionSize ?r'"
        using rs by simp
      show "integerSectionSize ?r' mod 8 = 0" "floatSectionSize ?r' mod 8 = 0"
        using rep by (simp_all add: represents_def laidOut_def)
      have "currentPos (chunkDevice K ?rs ?c') = currentPos (chunkDevice K ?rs c) + ?rs"
        using chunk_snoc_pos [of K ?rs "chunkHeader c" "chunkLines c" ?l "chunkSpare c - 1"
            "chunkOpen c" "chunkSpare c" "chunkOpen c"]
        by (simp only: chunk_collapse len)
      then show "recordedBytes ?r' = currentPos (last (flows ?r'))"
        by (simp add: rb)
      have "length (buffer (chunkDevice K ?rs ?c')) = length (buffer (chunkDevice K ?rs c))"
        using chunk_snoc_size [OF len spare, of "chunkHeader c" "chunkLines c" "chunkOpen c"
            "chunkOpen c"]
        by (simp only: chunk_collapse)
      then show "recordedBytesLimits ?r' = length (buffer (last (flows ?r')))"
        by (simp add: rl)
    qed
    have cfg: "sameConfig r ?r'"
      by (simp add: sameConfig_def)
    have "concat (map chunkLines (front @ [?c'])) = concat (map chunkLines (front @ [c])) @ [?l]"
      by simp
    with fl' rep' cfg show ?thesis
      by blast
  next
    case True
    let ?n = "TELEMETRY_MIN_BUFFER_SIZE K div ?rs"
    let ?closed = "Chunk (chunkHeader c) (chunkLines c) (chunkSpare c) False"
    let ?c' = "Chunk [] [?l] (?n - 1) True"
    let ?r' = "r\<lparr>flows := map (chunkDevice K ?rs) (front @ [?closed]) @ [chunkDevice K ?rs ?c'],
                recordedBytesLimits := ?n * ?rs,
                recordedBytes := ?rs\<rparr>"
    from True have eq: "recordedBytes r = recordedBytesLimits r"
      using chunkDevice_full [OF pos, of K c] rb rl by simp
    have n: "0 < ?n"
      using fit pos by (simp add: div_greater_zero_iff)
    have cn: "createNewChunk K r =
        Some (SUCCESS, r\<lparr>flows := map (chunkDevice K ?rs) (front @ [?closed]) @
                                    [chunkDevice K ?rs (Chunk [] [] ?n True)],
                          recordedBytesLimits := ?n * ?rs, recordedBytes := 0\<rparr>)"
      using pos
      by (simp add: createNewChunk_def fl chunkDevice_close chunkDevice_new [where K = K] Let_def)
    have w: "snd (device_write (lineBytes K ?l) (chunkDevice K ?rs (Chunk [] [] ?n True))) =
        chunkDevice K ?rs ?c'"
      using chunkDevice_write_line [of "Chunk [] [] ?n True" K ?l ?rs] n len by simp
    have fl': "flushDataSnapshot K d ts r = Some (SUCCESS, ?r')"
      using eq q
      by (simp add: flushDataSnapshot_def cn wl [OF chunkDevice_wf] w)
    have rep': "represents K header ?r' ((front @ [?closed]) @ [?c'])"
      unfolding represents_def laidOut_def
    proof (intro conjI)
      show "flows ?r' = map (chunkDevice K (recordedBytesDataLine ?r')) ((front @ [?closed]) @ [?c'])"
        by simp
      have "map chunkHeader ((front @ [?closed]) @ [?c']) = map chunkHeader (front @ [c]) @ [[]]"
        by simp
      also have "\<dots> = (header # replicate (length front) []) @ [[]]"
        by (simp only: hs)
      also have "\<dots> = header # replicate (Suc (length front)) []"
        by (simp add: replicate_append_same)
      finally show "map chunkHeader ((front @ [?closed]) @ [?c']) =
          header # replicate (length ((front @ [?closed]) @ [?c']) - 1) []"
        by simp
      show "list_all (\<lambda>c. list_all (lineFits (integerSectionSize ?r') (floatSectionSize ?r'))
          (chunkLines c)) ((front @ [?closed]) @ [?c'])"
        using fits lf by simp
      show "headerSize ?r' = length header"
        using rep by (simp add: represents_def laidOut_def)
      show "recordedBytesDataLine ?r' =
          length (START_LINE_TOKEN K) + 8 + integerSectionSize ?r' + floatSectionSize ?r'"
        using rs by simp
      show "integerSectionSize ?r' mod 8 = 0" "floatSectionSize ?r' mod 8 = 0"
        using rep by (simp_all add: represents_def laidOut_def)
      have "currentPos (chunkDevice K ?rs ?c') = ?rs"
        using chunk_snoc_pos [of K ?rs "[]" "[]" ?l "?n - 1" True ?n True]
        by (simp add: len) (simp add: chunkDevice_def)
      then show "recordedBytes ?r' = currentPos (last (flows ?r'))"
        by simp
      have "length (buffer (chunkDevice K ?rs ?c')) = ?n * ?rs"
        using chunk_snoc_size [OF len n, of "[]" "[]" True True]
        by simp (simp add: chunkDevice_def)
      then show "recordedBytesLimits ?r' = length (buffer (last (flows ?r')))"
        by simp
    qed
    have cfg: "sameConfig r ?r'"
      by (simp add: sameConfig_def)
    have "concat (map chunkLines ((front @ [?closed]) @ [?c'])) =
        concat (map chunkLines (front @ [c])) @ [?l]"
      by simp
    with fl' rep' cfg show ?thesis
      by blast
  qed
qed

lemma initialize_represents:
  assumes fresh: "\<not> isInitialized r"
  shows "\<exists>r1. initialize K d tu header r = Some (SUCCESS, r1) \<and>
           represents K header r1
             [Chunk header []
                ((max (TELEMETRY_MIN_BUFFER_SIZE K) (length header) - length header) div
                   recordedBytesDataLine r1) True] \<and>
           isInitialized r1 \<and>
           integerSectionSize r1 = 8 * length (integersRegistry d) \<and>
           floatSectionSize r1 = 8 * length (floatsRegistry d) \<and>
           timeUnitInv r1 = f_div (Finite 1) tu"
proof -
  let ?isz = "8 * length (integersRegistry d)"
  let ?fsz = "8 * length (floatsRegistry d)"
  let ?rs = "?isz + ?fsz + (length (START_LINE_TOKEN K) + 8)"
  let ?hs = "length header"
  let ?n = "(max (TELEMETRY_MIN_BUFFER_SIZE K) ?hs - ?hs) div ?rs"
  let ?limits = "?hs + ?n * ?rs"
  let ?cfg = "r\<lparr>timeUnitInv := f_div (Finite 1) tu, flows := [],
      integerSectionSize := ?isz, floatSectionSize := ?fsz,
      recordedBytesDataLine := ?rs, headerSize := ?hs\<rparr>"
  let ?fresh = "\<lparr>buffer = replicate ?limits (0 :: byte), currentPos = 0, isOpen = True\<rparr>"
  let ?r1 = "?cfg\<lparr>flows := [chunkDevice K ?rs (Chunk header [] ?n True)],
      recordedBytesLimits := ?limits, recordedBytes := ?hs, isInitialized := True\<rparr>"
  have cn: "createNewChunk K ?cfg =
      Some (SUCCESS, ?cfg\<lparr>flows := [?fresh], recordedBytesLimits := ?limits, recordedBytes := 0\<rparr>)"
    by (simp add: createNewChunk_def update_back_def device_open_def MemoryDevice_new_def Let_def)
  have b: "buffer ?fresh = [] @ replicate ?limits 0" and p: "currentPos ?fresh = length ([] :: bytes)"
    by simp_all
  have fit: "length header \<le> length (replicate ?limits (0 :: byte))"
    by simp
  have w: "device_write header ?fresh = (SUCCESS, chunkDevice K ?rs (Chunk header [] ?n True))"
    unfolding device_write_fits [OF b p fit]
    by (simp add: chunkDevice_def)
  have ini: "initialize K d tu header r = Some (SUCCESS, ?r1)"
    using fresh by (simp add: initialize_def Let_def cn w)
  have rep: "represents K header ?r1 [Chunk header [] ?n True]"
    by (simp add: represents_def laidOut_def chunkDevice_def)
  show ?thesis
    using ini rep by (intro exI [of _ ?r1]) simp
qed

subsection \<open>A recording session and its log\<close>

lemma sameConfig_refl [simp]: "sameConfig r r"
  by (simp add: sameConfig_def)

lemma sameConfig_trans: "sameConfig a b \<Longrightarrow> sameConfig b c \<Longrightarrow> sameConfig a c"
  by (simp add: sameConfig_def)

lemma sameConfig_snapshotOk: "sameConfig r r' \<Longrightarrow> snapshotOk r' = snapshotOk r"
  by (rule ext) (auto simp: sameConfig_def)

lemma sameConfig_recordedLine: "sameConfig r r' \<Longrightarrow> recordedLine r' = recordedLine r"
  by (rule ext) (auto simp: sameConfig_def)

lemma laidOut_nonempty: "laidOut K header r chunks \<Longrightarrow> chunks \<noteq> []"
  by (auto simp: laidOut_def)

lemma represents_nonempty: "represents K header r chunks \<Longrightarrow> chunks \<noteq> []"
  by (auto simp: represents_def laidOut_def)

lemma flushAll_represents:
  assumes "represents K header r chunks"
    and "recordedBytesDataLine r \<le> TELEMETRY_MIN_BUFFER_SIZE K"
    and "list_all (snapshotOk r) snaps"
  shows "\<exists>r' chunks'.
           flushAll K snaps r = Some r' \<and> represents K header r' chunks' \<and>
           concat (map chunkLines chunks') =
             concat (map chunkLines chunks) @ map (recordedLine r) snaps \<and>
           sameConfig r r'"
  using assms
proof (induction snaps arbitrary: r chunks)
  case Nil
  then show ?case
    by auto
next
  case (Cons s snaps)
  obtain d ts where s: "s = (d, ts)"
    by (cases s) auto
  from represents_nonempty [OF Cons.prems(1)] obtain front c where ch: "chunks = front @ [c]"
    by (cases chunks rule: rev_cases) auto
  from Cons.prems(3) s obtain t where
    shape: "8 * length (integersRegistry d) = integerSectionSize r"
      "8 * length (floatsRegistry d) = floatSectionSize r" and
    q: "quantizeTime ts (timeUnitInv r) = Some t"
    by auto
  from flush_represents [OF Cons.prems(1) [unfolded ch] Cons.prems(2) shape q]
  obtain r1 front1 c1 where
    fl: "flushDataSnapshot K d ts r = Some (SUCCESS, r1)" and
    rep1: "represents K header r1 (front1 @ [c1])" and
    lines1: "concat (map chunkLines (front1 @ [c1])) =
      concat (map chunkLines (front @ [c])) @ [snapshotLine t d]" and
    cfg1: "sameConfig r r1"
    by blast
  have fit1: "recordedBytesDataLine r1 \<le> TELEMETRY_MIN_BUFFER_SIZE K"
    using Cons.prems(2) cfg1 by (simp add: sameConfig_def)
  have ok1: "list_all (snapshotOk r1) snaps"
    using Cons.prems(3) by (simp add: sameConfig_snapshotOk [OF cfg1])
  from Cons.IH [OF rep1 fit1 ok1] obtain r' chunks' where
    run: "flushAll K snaps r1 = Some r'" and
    rep': "represents K header r' chunks'" and
    lines': "concat (map chunkLines chunks') =
      concat (map chunkLines (front1 @ [c1])) @ map (recordedLine r1) snaps" and
    cfg': "sameConfig r1 r'"
    by blast
  have "flushAll K (s # snaps) r = Some r'"
    using fl run by (simp add: s)
  moreover have "concat (map chunkLines chunks') =
      concat (map chunkLines chunks) @ map (recordedLine r) (s # snaps)"
    unfolding lines' lines1 ch
    by (simp add: s q sameConfig_recordedLine [OF cfg1])
  moreover have "sameConfig r r'"
    by (rule sameConfig_trans [OF cfg1 cfg'])
  ultimately show ?case
    using rep' by blast
qed

lemma getLog_laidOut:
  assumes tok: "startLineTokenFirst K \<noteq> 0"
    and dec: "headerDecodes K header cs names"
    and rep: "laidOut K header r chunks"
  shows "getLog K r =
           Some (SUCCESS, appendLines (concat (map chunkLines chunks)) (headerLog K cs names), r)"
proof -
  from laidOut_nonempty [OF rep] obtain c rest where ch: "chunks = c # rest"
    by (cases chunks) auto
  let ?rs = "recordedBytesDataLine r"
  from rep have fl: "flows r = map (chunkDevice K ?rs) (c # rest)"
    and hs: "map chunkHeader (c # rest) = header # replicate (length rest) []"
    and fits: "list_all (\<lambda>c. list_all (lineFits (integerSectionSize r) (floatSectionSize r))
        (chunkLines c)) (c # rest)"
    and rs: "?rs = length (START_LINE_TOKEN K) + 8 + integerSectionSize r + floatSectionSize r"
    and al: "integerSectionSize r mod 8 = 0" "floatSectionSize r mod 8 = 0"
    and hsz: "headerSize r = length header"
    by (simp_all add: laidOut_def ch)
  from hs have first: "chunkHeader c = header" and tl: "map chunkHeader rest = replicate (length rest) []"
    by simp_all
  have hdr: "\<forall>c\<in>set rest. chunkHeader c = []"
  proof
    fix x assume "x \<in> set rest"
    then have "chunkHeader x \<in> set (map chunkHeader rest)"
      by simp
    then show "chunkHeader x = []"
      unfolding tl by simp
  qed
  have fits': "\<forall>c\<in>set (c # rest). \<forall>l\<in>set (chunkLines c).
      lineFits (integerSectionSize r) (floatSectionSize r) l"
    using fits by (simp add: list_all_iff)
  from parseFlows_chunks [OF tok rs al dec first hdr fits']
  show ?thesis
    by (simp add: getLog_def parseLogDataRaw_def fl hsz ch headerLog_def)
qed

subsection \<open>A data line longer than a chunk\<close>

lemma write_line_full:
  assumes "currentPos dev = length (buffer dev)"
  shows "writeValues (floatsRegistry (d :: TelemetryData)) (writeValues (integersRegistry d)
           (snd (device_write (to_bytes (t :: 64 word))
             (snd (device_write (START_LINE_TOKEN (K :: TelemetryConstants)) dev))))) = dev"
proof -
  from assms have wf: "currentPos dev \<le> length (buffer dev)" and full: "bytesAvailable dev = 0"
    by (simp_all add: bytesAvailable_def)
  have "writeValues (floatsRegistry d) (writeValues (integersRegistry d)
      (snd (device_write (to_bytes t) (snd (device_write (START_LINE_TOKEN K) dev))))) =
      snd (device_write (encodeLine K t d) dev)"
    by (rule write_line_eq [OF wf])
  also have "\<dots> = dev"
    by (rule device_write_full [OF full wf])
  finally show ?thesis .
qed

lemma chunkDevice_no_spare:
  "chunkSpare c = 0 \<Longrightarrow>
     currentPos (chunkDevice K rs c) = length (buffer (chunkDevice K rs c))"
  by (simp add: chunkDevice_def)

lemma flush_oversized:
  assumes lo: "laidOut K header r (front @ [c])"
    and empty: "list_all (\<lambda>c. chunkLines c = [] \<and> chunkSpare c = 0) (front @ [c])"
    and big: "TELEMETRY_MIN_BUFFER_SIZE K < recordedBytesDataLine r"
    and q: "quantizeTime ts (timeUnitInv r) = Some t"
  shows "\<exists>r' chunks'.
           flushDataSnapshot K d ts r = Some (SUCCESS, r') \<and>
           laidOut K header r' chunks' \<and>
           list_all (\<lambda>c. chunkLines c = [] \<and> chunkSpare c = 0) chunks' \<and>
           sameConfig r r'"
proof -
  let ?rs = "recordedBytesDataLine r"
  from lo have fl: "flows r = map (chunkDevice K ?rs) front @ [chunkDevice K ?rs c]"
    and hs: "map chunkHeader (front @ [c]) = header # replicate (length front) []"
    and rs: "?rs = length (START_LINE_TOKEN K) + 8 + integerSectionSize r + floatSectionSize r"
    by (simp_all add: laidOut_def)
  from empty have c0: "chunkSpare c = 0" and cl: "chunkLines c = []"
    by simp_all
  have pos: "0 < ?rs"
    using rs by simp
  show ?thesis
  proof (cases "recordedBytes r = recordedBytesLimits r")
    case False
    let ?r' = "r\<lparr>flows := map (chunkDevice K ?rs) front @ [chunkDevice K ?rs c],
                recordedBytes := recordedBytes r + ?rs\<rparr>"
    have fl': "flushDataSnapshot K d ts r = Some (SUCCESS, ?r')"
      using False q
      by (simp add: flushDataSnapshot_def fl write_line_full [OF chunkDevice_no_spare [OF c0]])
    have lo': "laidOut K header ?r' (front @ [c])"
      using lo by (simp add: laidOut_def)
    have "sameConfig r ?r'"
      by (simp add: sameConfig_def)
    with fl' lo' empty show ?thesis
      by blast
  next
    case True
    let ?closed = "Chunk (chunkHeader c) (chunkLines c) (chunkSpare c) False"
    let ?new = "Chunk [] [] 0 True"
    let ?r' = "r\<lparr>flows := map (chunkDevice K ?rs) (front @ [?closed]) @ [chunkDevice K ?rs ?new],
                recordedBytesLimits := 0, recordedBytes := ?rs\<rparr>"
    have n: "TELEMETRY_MIN_BUFFER_SIZE K div ?rs = 0"
      using big by simp
    have cn: "createNewChunk K r =
        Some (SUCCESS, r\<lparr>flows := map (chunkDevice K ?rs) (front @ [?closed]) @
                                    [chunkDevice K ?rs ?new],
                          recordedBytesLimits := 0, recordedBytes := 0\<rparr>)"
      using pos chunkDevice_new [of 0 ?rs K]
      by (simp add: createNewChunk_def fl chunkDevice_close n Let_def)
    have full: "currentPos (chunkDevice K ?rs ?new) = length (buffer (chunkDevice K ?rs ?new))"
      by (rule chunkDevice_no_spare) simp
    have fl': "flushDataSnapshot K d ts r = Some (SUCCESS, ?r')"
      using True q
      by (simp add: flushDataSnapshot_def cn write_line_full [OF full])
    have lo': "laidOut K header ?r' ((front @ [?closed]) @ [?new])"
      unfolding laidOut_def
    proof (intro conjI)
      show "flows ?r' = map (chunkDevice K (recordedBytesDataLine ?r')) ((front @ [?closed]) @ [?new])"
        by simp
      have "map chunkHeader ((front @ [?closed]) @ [?new]) = map chunkHeader (front @ [c]) @ [[]]"
        by simp
      also have "\<dots> = (header # replicate (length front) []) @ [[]]"
        by (simp only: hs)
      also have "\<dots> = header # replicate (Suc (length front)) []"
        by (simp add: replicate_append_same)
      finally show "map chunkHeader ((front @ [?closed]) @ [?new]) =
          header # replicate (length ((front @ [?closed]) @ [?new]) - 1) []"
        by simp
      show "list_all (\<lambda>c. list_all (lineFits (integerSectionSize ?r') (floatSectionSize ?r'))
          (chunkLines c)) ((front @ [?closed]) @ [?new])"
        using lo by (simp add: laidOut_def)
      show "headerSize ?r' = length header"
        using lo by (simp add: laidOut_def)
      show "recordedBytesDataLine ?r' =
          length (START_LINE_TOKEN K) + 8 + integerSectionSize ?r' + floatSectionSize ?r'"
        using rs by simp
      show "integerSectionSize ?r' mod 8 = 0" "floatSectionSize ?r' mod 8 = 0"
        using lo by (simp_all add: laidOut_def)
      show "recordedBytesLimits ?r' = length (buffer (last (flows ?r')))"
        by (simp add: chunkDevice_def)
    qed
    have em': "list_all (\<lambda>c. chunkLines c = [] \<and> chunkSpare c = 0) ((front @ [?closed]) @ [?new])"
      using empty by simp
    have "sameConfig r ?r'"
      by (simp add: sameConfig_def)
    with fl' lo' em' show ?thesis
      by blast
  qed
qed

lemma sameConfig_timeOk: "sameConfig r r' \<Longrightarrow> timeOk r' = timeOk r"
  by (rule ext) (auto simp: sameConfig_def)

lemma flushAll_oversized:
  assumes "laidOut K header r chunks"
    and "list_all (\<lambda>c. chunkLines c = [] \<and> chunkSpare c = 0) chunks"
    and "TELEMETRY_MIN_BUFFER_SIZE K < recordedBytesDataLine r"
    and "list_all (timeOk r) snaps"
  shows "\<exists>r' chunks'.
           flushAll K snaps r = Some r' \<and> laidOut K header r' chunks' \<and>
           list_all (\<lambda>c. chunkLines c = [] \<and> chunkSpare c = 0) chunks' \<and> sameConfig r r'"
  using assms
proof (induction snaps arbitrary: r chunks)
  case Nil
  then show ?case
    by auto
next
  case (Cons s snaps)
  obtain d ts where s: "s = (d, ts)"
    by (cases s) auto
  from laidOut_nonempty [OF Cons.prems(1)] obtain front c where ch: "chunks = front @ [c]"
    by (cases chunks rule: rev_cases) auto
  from Cons.prems(4) s obtain t where q: "quantizeTime ts (timeUnitInv r) = Some t"
    by auto
  from flush_oversized [OF Cons.prems(1) [unfolded ch] Cons.prems(2) [unfolded ch]
      Cons.prems(3) q, of d]
  obtain r1 chunks1 where
    fl: "flushDataSnapshot K d ts r = Some (SUCCESS, r1)" and
    lo1: "laidOut K header r1 chunks1" and
    em1: "list_all (\<lambda>c. chunkLines c = [] \<and> chunkSpare c = 0) chunks1" and
    cfg1: "sameConfig r r1"
    by blast
  have big1: "TELEMETRY_MIN_BUFFER_SIZE K < recordedBytesDataLine r1"
    using Cons.prems(3) cfg1 by (simp add: sameConfig_def)
  have ok1: "list_all (timeOk r1) snaps"
    using Cons.prems(4) by (simp add: sameConfig_timeOk [OF cfg1])
  from Cons.IH [OF lo1 em1 big1 ok1] obtain r' chunks' where
    "flushAll K snaps r1 = Some r'" "laidOut K header r' chunks'"
    "list_all (\<lambda>c. chunkLines c = [] \<and> chunkSpare c = 0) chunks'" "sameConfig r1 r'"
    by blast
  with fl cfg1 show ?case
    using sameConfig_trans [of r r1 r'] by (auto simp: s)
qed

subsection \<open>Sessions: initialisation followed by snapshots\<close>

lemma initialize_fresh:
  "initialize K d tu header r0 = Some (SUCCESS, r1) \<Longrightarrow> \<not> isInitialized r0"
  by (auto simp: initialize_def Let_def)

lemma snapshotOk_timeOk: "snapshotOk r s \<Longrightarrow> timeOk r s"
  by (cases s) simp

lemma recordedLine_sel:
  "recordedLine r s = snapshotLine (the (quantizeTime (snd s) (timeUnitInv r))) (fst s)"
  by (cases s) simp

lemma session_laidOut:
  assumes init: "initialize K d0 tu header r0 = Some (SUCCESS, r1)"
    and ok: "list_all (snapshotOk r1) snaps"
  shows "\<exists>r chunks.
           flushAll K snaps r1 = Some r \<and> laidOut K header r chunks \<and> sameConfig r1 r \<and>
           (recordedBytesDataLine r1 \<le> TELEMETRY_MIN_BUFFER_SIZE K \<longrightarrow>
              recordedBytes r = currentPos (last (flows r)) \<and>
              concat (map chunkLines chunks) = map (recordedLine r1) snaps) \<and>
           (TELEMETRY_MIN_BUFFER_SIZE K < recordedBytesDataLine r1 \<longrightarrow>
              concat (map chunkLines chunks) = [])"
proof -
  let ?n = "(max (TELEMETRY_MIN_BUFFER_SIZE K) (length header) - length header) div
              recordedBytesDataLine r1"
  from initialize_represents [OF initialize_fresh [OF init], of K d0 tu header] init
  have rep: "represents K header r1 [Chunk header [] ?n True]"
    by auto
  show ?thesis
  proof (cases "recordedBytesDataLine r1 \<le> TELEMETRY_MIN_BUFFER_SIZE K")
    case True
    from flushAll_represents [OF rep True ok] obtain r chunks where
      "flushAll K snaps r1 = Some r" "represents K header r chunks"
      "concat (map chunkLines chunks) = map (recordedLine r1) snaps" "sameConfig r1 r"
      by auto
    with True show ?thesis
      unfolding represents_def by (intro exI [of _ r] exI [of _ chunks]) simp
  next
    case False
    then have big: "TELEMETRY_MIN_BUFFER_SIZE K < recordedBytesDataLine r1" by simp
    then have "max (TELEMETRY_MIN_BUFFER_SIZE K) (length header) - length header
                 < recordedBytesDataLine r1"
      by arith
    then have n0: "?n = 0" by simp
    from rep have lo: "laidOut K header r1 [Chunk header [] ?n True]"
      by (simp add: represents_def)
    have empty: "list_all (\<lambda>c. chunkLines c = [] \<and> chunkSpare c = 0) [Chunk header [] ?n True]"
      using n0 by simp
    from ok have tok: "list_all (timeOk r1) snaps"
      by (simp add: list_all_iff snapshotOk_timeOk)
    from flushAll_oversized [OF lo empty big tok] obtain r chunks where
      fa: "flushAll K snaps r1 = Some r" and lo': "laidOut K header r chunks"
      and em: "list_all (\<lambda>c. chunkLines c = [] \<and> chunkSpare c = 0) chunks" and sc: "sameConfig r1 r"
      by auto
    from em have "concat (map chunkLines chunks) = []"
      by (induction chunks) auto
    with fa lo' sc big show ?thesis
      by (intro exI [of _ r] exI [of _ chunks]) simp
  qed
qed

lemma session_log:
  assumes init: "initialize K d0 tu header r0 = Some (SUCCESS, r1)"
    and tok: "startLineTokenFirst K \<noteq> 0"
    and dec: "headerDecodes K header cs names"
    and ok: "list_all (snapshotOk r1) snaps"
  shows "\<exists>r. flushAll K snaps r1 = Some r \<and>
           getLog K r =
             Some (SUCCESS,
                   appendLines
                     (if recordedBytesDataLine r1 \<le> TELEMETRY_MIN_BUFFER_SIZE K
                      then map (recordedLine r1) snaps else [])
                     (headerLog K cs names), r)"
proof -
  from session_laidOut [OF init ok] obtain r chunks where
    fa: "flushAll K snaps r1 = Some r" and lo: "laidOut K header r chunks"
    and fit: "recordedBytesDataLine r1 \<le> TELEMETRY_MIN_BUFFER_SIZE K \<Longrightarrow>
                concat (map chunkLines chunks) = map (recordedLine r1) snaps"
    and big: "TELEMETRY_MIN_BUFFER_SIZE K < recordedBytesDataLine r1 \<Longrightarrow>
                concat (map chunkLines chunks) = []"
    by auto
  have "concat (map chunkLines chunks) =
          (if recordedBytesDataLine r1 \<le> TELEMETRY_MIN_BUFFER_SIZE K
           then map (recordedLine r1) snaps else [])"
    using fit big by (cases "recordedBytesDataLine r1 \<le> TELEMETRY_MIN_BUFFER_SIZE K") simp_all
  with getLog_laidOut [OF tok dec lo] fa show ?thesis
    by (intro exI [of _ r]) simp
qed

subsection \<open>Concrete sessions\<close>

lemma length_exampleHeader: "length exampleHeader = 17"
  by simp

lemma initialize_small: "initialize exampleK (oneInt 0) (Finite 1) exampleHeader freshRecorder = Some (SUCCESS, smallStart)"
  unfolding initialize_def createNewChunk_def Let_def update_back_def device_open_def
    MemoryDevice_new_def device_write_def bytesAvailable_def
  by (simp only: length_exampleHeader) simp

lemma initialize_big: "initialize exampleK threeInts (Finite 1) exampleHeader freshRecorder = Some (SUCCESS, bigStart)"
  unfolding initialize_def createNewChunk_def Let_def update_back_def device_open_def
    MemoryDevice_new_def device_write_def bytesAvailable_def
  by (simp only: length_exampleHeader) simp

lemma quantizeTime_5: "quantizeTime (Finite 5) (Finite 1) = Some 5"
  by (simp add: quantizeTime_def c_round_def)

lemma quantizeTime_6: "quantizeTime (Finite 6) (Finite 1) = Some 6"
  by (simp add: quantizeTime_def c_round_def)

text \<open>
  The time of a row is the rounded product of the time by the rounded inverse of the time
  unit, which is not always the nearest integer to the quotient: with a time unit of \<^verbatim>\<open>0.1\<close>
  and the time \<^verbatim>\<open>0x1.3333333333333p-3\<close>, just below \<^verbatim>\<open>0.15\<close>, the inverse is 10, the product
  rounds to \<^verbatim>\<open>1.5\<close> and the row gets the time 2, while the quotient of the two doubles is
  below \<^verbatim>\<open>1.5\<close>.
\<close>

lemma timeUnitInv_tenth: "f_div (Finite 1.0) (rnd 0.1) = Finite 10"
proof -
  have b: "binade (1 / (3602879701896397 / 2 ^ 55)) = 3" by (rule binadeI) simp_all
  have n: "rnd_even (1 / (3602879701896397 / 2 ^ 55) / 2 powi (3 - 52)) = 5629499534213120"
    by (simp add: rnd_even_def Let_def)
  from rnd_eval [OF b n] show ?thesis
    unfolding tenth_val by (simp add: tenth_def)
qed

lemma quantizeTime_sample:
  "quantizeTime (Finite sampleTime) (f_div (Finite 1.0) (rnd 0.1)) = Some 2 \<and>
   c_round (sampleTime / tenth) = 1"
proof -
  have b: "binade (5404319552844595 / 2 ^ 55 * 10) = 0" by (rule binadeI) simp_all
  have n: "rnd_even (5404319552844595 / 2 ^ 55 * 10 / 2 powi (0 - 52)) = 6755399441055744"
    by (simp add: rnd_even_def Let_def)
  from rnd_eval [OF b n] have "f_mul (Finite sampleTime) (Finite 10) = Finite (3 / 2)"
    by (simp add: sampleTime_def)
  then have "quantizeTime (Finite sampleTime) (Finite 10) = Some 2"
    by (simp add: quantizeTime_def c_round_def del: f_mul.simps)
  moreover have "c_round (sampleTime / tenth) = 1"
    by (simp add: c_round_def sampleTime_def tenth_def)
  ultimately show ?thesis unfolding timeUnitInv_tenth by simp
qed

lemma flush_big: "flushDataSnapshot exampleK threeInts (Finite 5) bigStart = Some (SUCCESS, bigOneRow)"
  unfolding flushDataSnapshot_def createNewChunk_def Let_def update_back_def device_open_def
      MemoryDevice_new_def device_write_def bytesAvailable_def device_close_def writeValues_def
  by (simp add: quantizeTime_5)

lemma headerDecodes_example: "headerDecodes exampleK exampleHeader [([0x75], [0x31])] [[0x74]]"
  by code_simp

lemma startLineTokenFirst_example: "startLineTokenFirst exampleK \<noteq> 0"
  by (simp add: startLineTokenFirst_def)

subsection \<open>Round trip of a recording session\<close>

text \<open>
  The round trip of a session whose data line fits into a chunk, the part of claim C1 that
  the code keeps. Suppose that \<^verbatim>\<open>initialize\<close> succeeds, that a data line is not longer
  than \<^verbatim>\<open>TELEMETRY_MIN_BUFFER_SIZE\<close>, that the first byte of the start-of-line token is not
  zero, and that the header written at initialisation is one the parser decodes into the
  constants \<^verbatim>\<open>cs\<close> and the field names \<^verbatim>\<open>names\<close>. Then after any sequence of snapshots that
  keep the number of registered variables and whose time is representable, \<^verbatim>\<open>getLog\<close>
  succeeds, leaves the recorder as it was, and returns the version, these constants and field
  names, and for every snapshot, in the order of recording, its time \<^verbatim>\<open>round(t * timeUnitInv)\<close>,
  its integer values and its float values, however the lines are spread over the chunks.
\<close>

theorem telemetry_round_trip:
  assumes init: "initialize K d0 tu header recorder = Some (SUCCESS, r1)"
    and tok: "startLineTokenFirst K \<noteq> 0"
    and dec: "headerDecodes K header cs names"
    and fit: "recordedBytesDataLine r1 \<le> TELEMETRY_MIN_BUFFER_SIZE K"
    and ok: "list_all (snapshotOk r1) snaps"
  shows "\<exists>r. flushAll K snaps r1 = Some r \<and>
           getLog K r =
             Some (SUCCESS,
                   \<lparr>version = TELEMETRY_VERSION K, constants = cs, fieldnames = names,
                    timeUnit = lookupTimeUnit K cs,
                    timestamps = map (\<lambda>s. the (quantizeTime (snd s) (f_div (Finite 1) tu))) snaps,
                    intData = map (\<lambda>s. map snd (integersRegistry (fst s))) snaps,
                    floatData = map (\<lambda>s. map snd (floatsRegistry (fst s))) snaps\<rparr>,
                   r)"
proof -
  from initialize_represents [OF initialize_fresh [OF init], of K d0 tu header] init
  have inv: "timeUnitInv r1 = f_div (Finite 1) tu"
    by auto
  from session_log [OF init tok dec ok] fit obtain r where
    fa: "flushAll K snaps r1 = Some r"
    and gl: "getLog K r =
      Some (SUCCESS, appendLines (map (recordedLine r1) snaps) (headerLog K cs names), r)"
    by auto
  have "appendLines (map (recordedLine r1) snaps) (headerLog K cs names) =
          \<lparr>version = TELEMETRY_VERSION K, constants = cs, fieldnames = names,
           timeUnit = lookupTimeUnit K cs,
           timestamps = map (\<lambda>s. the (quantizeTime (snd s) (f_div (Finite 1) tu))) snaps,
           intData = map (\<lambda>s. map snd (integersRegistry (fst s))) snaps,
           floatData = map (\<lambda>s. map snd (floatsRegistry (fst s))) snaps\<rparr>"
    by (simp add: appendLines_def headerLog_def emptyLogData_def recordedLine_sel
        snapshotLine_def inv)
  with fa gl show ?thesis by simp
qed

text \<open>
  The round trip on the session whose data line of 17 bytes fits: two snapshots, each in
  a chunk of its own, are read back as two columns.
\<close>

theorem telemetry_round_trip_example:
  "initialize exampleK (oneInt 0) (Finite 1) exampleHeader freshRecorder = Some (SUCCESS, smallStart) \<and>
   list_all (snapshotOk smallStart) [(oneInt 7, Finite 5), (oneInt 9, Finite 6)] \<and>
   (\<exists>r. flushAll exampleK [(oneInt 7, Finite 5), (oneInt 9, Finite 6)] smallStart = Some r \<and>
        getLog exampleK r =
          Some (SUCCESS,
                \<lparr>version = 1, constants = [([0x75], [0x31])], fieldnames = [[0x74]],
                 timeUnit = Finite 1, timestamps = [5, 6], intData = [[7], [9]],
                 floatData = [[], []]\<rparr>,
                r))"
proof -
  have ok: "list_all (snapshotOk smallStart) [(oneInt 7, Finite 5), (oneInt 9, Finite 6)]"
    by (simp add: quantizeTime_5 quantizeTime_6)
  have fit: "recordedBytesDataLine smallStart \<le> TELEMETRY_MIN_BUFFER_SIZE exampleK"
    by simp
  from telemetry_round_trip [OF initialize_small startLineTokenFirst_example headerDecodes_example fit ok]
    initialize_small ok
  show ?thesis
    by (simp add: quantizeTime_5 quantizeTime_6)
qed

text \<open>
  Claim C1 fails on the code, which loses a row that is longer than a chunk. With three
  integer variables a data line has 33 bytes, more than the 32 bytes of a chunk, so every chunk
  has room for no line at all: \<^verbatim>\<open>initialize\<close> and \<^verbatim>\<open>flushDataSnapshot\<close> both return \<^verbatim>\<open>SUCCESS\<close>,
  the chunk opened for the snapshot has no capacity, its writes store nothing and their return
  codes are not looked at, and \<^verbatim>\<open>getLog\<close> returns a log without any row.
\<close>

theorem oversized_row_lost:
  "initialize exampleK threeInts (Finite 1) exampleHeader freshRecorder = Some (SUCCESS, bigStart) \<and>
   flushDataSnapshot exampleK threeInts (Finite 5) bigStart = Some (SUCCESS, bigOneRow) \<and>
   getLog exampleK bigOneRow =
     Some (SUCCESS,
           \<lparr>version = 1, constants = [([0x75], [0x31])], fieldnames = [[0x74]],
            timeUnit = Finite 1, timestamps = [], intData = [], floatData = []\<rparr>,
           bigOneRow)"
proof -
  have "getLog exampleK bigOneRow =
     Some (SUCCESS,
           \<lparr>version = 1, constants = [([0x75], [0x31])], fieldnames = [[0x74]],
            timeUnit = Finite 1, timestamps = [], intData = [], floatData = []\<rparr>,
           bigOneRow)"
    by code_simp
  with initialize_big flush_big show ?thesis by simp
qed

subsection \<open>Alignment of rows and chunks\<close>

lemma to_bytes_examples:
  "to_bytes (5 :: 64 word) = [5, 0, 0, 0, 0, 0, 0, 0]"
  "to_bytes (6 :: 64 word) = [6, 0, 0, 0, 0, 0, 0, 0]"
  "to_bytes (7 :: 64 word) = [7, 0, 0, 0, 0, 0, 0, 0]"
  "to_bytes (9 :: 64 word) = [9, 0, 0, 0, 0, 0, 0, 0]"
  by code_simp+

lemma flushAll_small:
  "flushAll exampleK [(oneInt 7, Finite 5), (oneInt 9, Finite 6)] smallStart = Some smallTwoRows"
  unfolding flushAll.simps flushDataSnapshot_def createNewChunk_def Let_def update_back_def
    device_open_def MemoryDevice_new_def device_write_def bytesAvailable_def device_close_def
    writeValues_def
  by (simp add: quantizeTime_5 quantizeTime_6 to_bytes_examples)

lemma snapshots_small:
  "list_all (snapshotOk smallStart) [(oneInt 7, Finite 5), (oneInt 9, Finite 6)]"
  by (simp add: quantizeTime_5 quantizeTime_6)

lemma length_update_back [simp]: "length (update_back f xs) = length xs"
  by (cases "xs = []") (simp_all add: update_back_def)

lemma flush_rolls:
  assumes "flushDataSnapshot K d t r = Some (rc, r')"
  shows "length (flows r') =
           (if recordedBytes r = recordedBytesLimits r then Suc (length (flows r))
            else length (flows r))"
  using assms
  by (auto simp: flushDataSnapshot_def createNewChunk_def Let_def
      split: if_splits option.splits)

lemma chunkDevice_aligned:
  assumes fits: "list_all (lineFits isz fsz) (chunkLines c)"
    and rs: "rs = length (START_LINE_TOKEN K) + 8 + isz + fsz"
  shows "chunkAligned (length (chunkHeader c)) rs (chunkDevice K rs c)"
proof -
  from fits have "\<forall>l\<in>set (chunkLines c). lineFits isz fsz l"
    by (simp add: list_all_iff)
  from length_concat_lines [OF this, of K]
  have "length (concat (map (lineBytes K) (chunkLines c))) = length (chunkLines c) * rs"
    by (simp add: rs)
  then show ?thesis
    by (simp add: chunkAligned_def chunkDevice_def)
qed

lemma laidOut_aligned:
  assumes lo: "laidOut K header r chunks"
  shows "flowsAligned (headerSize r) (recordedBytesDataLine r) (flows r)"
proof -
  from laidOut_nonempty [OF lo] obtain c cs where chunks: "chunks = c # cs"
    by (cases chunks) auto
  let ?rs = "recordedBytesDataLine r"
  from lo have fl: "flows r = map (chunkDevice K ?rs) chunks"
    and hdrs: "map chunkHeader chunks = header # replicate (length chunks - 1) []"
    and fits: "list_all (\<lambda>c. list_all (lineFits (integerSectionSize r) (floatSectionSize r))
                 (chunkLines c)) chunks"
    and hs: "headerSize r = length header"
    and rs: "?rs = length (START_LINE_TOKEN K) + 8 + integerSectionSize r + floatSectionSize r"
    by (simp_all add: laidOut_def)
  from hdrs chunks have hc: "chunkHeader c = header"
    and hcs: "map chunkHeader cs = replicate (length cs) []"
    by simp_all
  have first: "chunkAligned (headerSize r) ?rs (chunkDevice K ?rs c)"
    using chunkDevice_aligned [of "integerSectionSize r" "floatSectionSize r" c ?rs K]
      fits rs hc hs chunks by simp
  have rest: "list_all (chunkAligned 0 ?rs) (map (chunkDevice K ?rs) cs)"
    unfolding list_all_iff
  proof
    fix dev assume "dev \<in> set (map (chunkDevice K ?rs) cs)"
    then obtain c' where c': "c' \<in> set cs" and dev: "dev = chunkDevice K ?rs c'"
      by auto
    from c' have "chunkHeader c' \<in> set (map chunkHeader cs)" by simp
    with hcs have "chunkHeader c' = []" by simp
    moreover from c' fits chunks
    have "list_all (lineFits (integerSectionSize r) (floatSectionSize r)) (chunkLines c')"
      by (simp add: list_all_iff)
    ultimately show "chunkAligned 0 ?rs dev"
      using chunkDevice_aligned [of "integerSectionSize r" "floatSectionSize r" c' ?rs K] rs dev
      by simp
  qed
  from first rest show ?thesis
    by (simp add: fl chunks)
qed

text \<open>
  The alignment of chunks on rows, the part of claim C7 that the code keeps. After a
  successful \<^verbatim>\<open>initialize\<close> and any sequence of snapshots that
  keep the number of registered variables and whose time is representable: the first chunk
  holds the header followed by whole rows and every later chunk holds whole rows only, both in
  what is used and in its capacity; a further \<^verbatim>\<open>flushDataSnapshot\<close> adds a chunk exactly when
  the byte counter equals the limit of the current chunk; and, provided a data line is not
  longer than \<^verbatim>\<open>TELEMETRY_MIN_BUFFER_SIZE\<close>, that is exactly when the current chunk is full.
\<close>

theorem chunk_row_alignment:
  assumes init: "initialize K d0 tu header recorder = Some (SUCCESS, r1)"
    and ok: "list_all (snapshotOk r1) snaps"
  shows "\<exists>r. flushAll K snaps r1 = Some r \<and>
           flowsAligned (headerSize r1) (recordedBytesDataLine r1) (flows r) \<and>
           (\<forall>d t rc r'. flushDataSnapshot K d t r = Some (rc, r') \<longrightarrow>
              length (flows r') =
                (if recordedBytes r = recordedBytesLimits r then Suc (length (flows r))
                 else length (flows r))) \<and>
           (recordedBytesDataLine r1 \<le> TELEMETRY_MIN_BUFFER_SIZE K \<longrightarrow>
              (recordedBytes r = recordedBytesLimits r) =
                (bytesAvailable (last (flows r)) = 0))"
proof -
  from session_laidOut [OF init ok] obtain r chunks where
    fa: "flushAll K snaps r1 = Some r" and lo: "laidOut K header r chunks"
    and sc: "sameConfig r1 r"
    and fit: "recordedBytesDataLine r1 \<le> TELEMETRY_MIN_BUFFER_SIZE K \<Longrightarrow>
                recordedBytes r = currentPos (last (flows r))"
    by auto
  from laidOut_aligned [OF lo] sc
  have al: "flowsAligned (headerSize r1) (recordedBytesDataLine r1) (flows r)"
    by (simp add: sameConfig_def)
  from lo have lim: "recordedBytesLimits r = length (buffer (last (flows r)))"
    by (simp add: laidOut_def)
  from lo laidOut_nonempty [OF lo] have "last (flows r) = chunkDevice K (recordedBytesDataLine r) (last chunks)"
    by (simp add: laidOut_def last_map)
  then have wf: "currentPos (last (flows r)) \<le> length (buffer (last (flows r)))"
    by (simp add: chunkDevice_wf)
  have full: "recordedBytesDataLine r1 \<le> TELEMETRY_MIN_BUFFER_SIZE K \<longrightarrow>
      (recordedBytes r = recordedBytesLimits r) = (bytesAvailable (last (flows r)) = 0)"
    using fit lim wf by (auto simp: bytesAvailable_def)
  from fa al full show ?thesis
    by (intro exI [of _ r]) (simp add: flush_rolls)
qed

text \<open>
  The alignment on the session whose data line fits: after two snapshots the three chunks
  are aligned on rows of 17 bytes, and the current chunk is full with the counter at its limit.
\<close>

theorem chunk_row_alignment_example:
  "initialize exampleK (oneInt 0) (Finite 1) exampleHeader freshRecorder = Some (SUCCESS, smallStart) \<and>
   flushAll exampleK [(oneInt 7, Finite 5), (oneInt 9, Finite 6)] smallStart = Some smallTwoRows \<and>
   flowsAligned 17 17 (flows smallTwoRows) \<and>
   recordedBytes smallTwoRows = recordedBytesLimits smallTwoRows \<and>
   bytesAvailable (last (flows smallTwoRows)) = 0"
proof -
  from chunk_row_alignment [OF initialize_small snapshots_small] obtain r where
    session: "flushAll exampleK [(oneInt 7, Finite 5), (oneInt 9, Finite 6)] smallStart = Some r \<and>
      flowsAligned (headerSize smallStart) (recordedBytesDataLine smallStart) (flows r) \<and>
      (\<forall>d t rc r'. flushDataSnapshot exampleK d t r = Some (rc, r') \<longrightarrow>
         length (flows r') =
           (if recordedBytes r = recordedBytesLimits r then Suc (length (flows r))
            else length (flows r))) \<and>
      (recordedBytesDataLine smallStart \<le> TELEMETRY_MIN_BUFFER_SIZE exampleK \<longrightarrow>
         (recordedBytes r = recordedBytesLimits r) = (bytesAvailable (last (flows r)) = 0))" ..
  note fa = session [THEN conjunct1]
  note al = session [THEN conjunct2, THEN conjunct1]
  note full = session [THEN conjunct2, THEN conjunct2, THEN conjunct2]
  from fa [unfolded flushAll_small] have r: "smallTwoRows = r"
    by (simp only: option.inject)
  from al have "flowsAligned 17 17 (flows smallTwoRows)"
    unfolding r [symmetric] by simp
  moreover have "recordedBytes smallTwoRows = recordedBytesLimits smallTwoRows"
    by simp
  moreover from full have "bytesAvailable (last (flows smallTwoRows)) = 0"
    unfolding r [symmetric] by simp
  ultimately show ?thesis
    using initialize_small flushAll_small by (simp only: simp_thms)
qed

text \<open>
  Claim C7 fails on the code for the roll to a new chunk. With a data line of 33 bytes and
  chunks of 32 bytes, the chunk opened by the first snapshot has no capacity, so it is full;
  the counter stands at 33 and the limit at 0, and the second snapshot does not open a new
  chunk: its row is lost as the first one was.
\<close>

theorem oversized_row_no_roll:
  "initialize exampleK threeInts (Finite 1) exampleHeader freshRecorder = Some (SUCCESS, bigStart) \<and>
   flushDataSnapshot exampleK threeInts (Finite 5) bigStart = Some (SUCCESS, bigOneRow) \<and>
   bytesAvailable (last (flows bigOneRow)) = 0 \<and>
   flushDataSnapshot exampleK threeInts (Finite 6) bigOneRow = Some (SUCCESS, bigTwoRows) \<and>
   length (flows bigTwoRows) = length (flows bigOneRow)"
proof -
  have "flushDataSnapshot exampleK threeInts (Finite 6) bigOneRow = Some (SUCCESS, bigTwoRows)"
    unfolding flushDataSnapshot_def createNewChunk_def Let_def update_back_def device_open_def
      MemoryDevice_new_def device_write_def bytesAvailable_def device_close_def writeValues_def
    by (simp add: quantizeTime_6)
  with initialize_big flush_big show ?thesis
    by (simp add: bytesAvailable_def)
qed

subsection \<open>Reset of the recorder\<close>

lemma map_update_back_same:
  "(\<And>x. g (f x) = g x) \<Longrightarrow> map g (update_back f xs) = map g xs"
  by (cases xs rule: rev_cases) (simp_all add: update_back_def)

lemma last_update_back: "xs \<noteq> [] \<Longrightarrow> last (update_back f xs) = f (last xs)"
  by (simp add: update_back_def)

lemma initialize_one_chunk:
  assumes "initialize K d tu header r = Some (SUCCESS, r')"
  shows "length (flows r') = 1"
proof -
  from initialize_represents [OF initialize_fresh [OF assms], of K d tu header] assms
  obtain n where "represents K header r' [Chunk header [] n True]"
    by auto
  then show ?thesis
    by (simp add: represents_def laidOut_def)
qed

text \<open>
  Claim C9, as amended. \<^verbatim>\<open>reset\<close> returns the recorder to the uninitialised state and closes
  the current chunk, but it keeps every chunk with its contents and its cursor. The chunks of
  a previous recording are released by the next successful \<^verbatim>\<open>initialize\<close>, which leaves the
  recorder with exactly one chunk.
\<close>

theorem reset_keeps_chunks:
  "\<not> getIsInitialized (TelemetryRecorder_reset r) \<and>
   map buffer (flows (TelemetryRecorder_reset r)) = map buffer (flows r) \<and>
   map currentPos (flows (TelemetryRecorder_reset r)) = map currentPos (flows r) \<and>
   (flows r \<noteq> [] \<longrightarrow> \<not> isOpen (last (flows (TelemetryRecorder_reset r)))) \<and>
   (\<forall>K d tu header r'.
      initialize K d tu header (TelemetryRecorder_reset r) = Some (SUCCESS, r') \<longrightarrow>
      length (flows r') = 1)"
  by (simp add: getIsInitialized_def TelemetryRecorder_reset_def map_update_back_same
      last_update_back device_close_def initialize_one_chunk)

text \<open>
  The amended claim on the recorder that holds two rows in three chunks: after \<^verbatim>\<open>reset\<close> the
  three chunks are still there, the last one closed, and a new \<^verbatim>\<open>initialize\<close> starts again
  from a single chunk.
\<close>

theorem reset_keeps_chunks_witness:
  "\<not> getIsInitialized (TelemetryRecorder_reset smallTwoRows) \<and>
   map buffer (flows (TelemetryRecorder_reset smallTwoRows)) = map buffer (flows smallTwoRows) \<and>
   map currentPos (flows (TelemetryRecorder_reset smallTwoRows)) = [17, 17, 17] \<and>
   \<not> isOpen (last (flows (TelemetryRecorder_reset smallTwoRows))) \<and>
   initialize exampleK (oneInt 0) (Finite 1) exampleHeader (TelemetryRecorder_reset smallTwoRows) =
     Some (SUCCESS, smallStart)"
proof -
  have "initialize exampleK (oneInt 0) (Finite 1) exampleHeader (TelemetryRecorder_reset smallTwoRows) =
     Some (SUCCESS, smallStart)"
    unfolding TelemetryRecorder_reset_def initialize_def createNewChunk_def Let_def
      update_back_def device_open_def MemoryDevice_new_def device_write_def bytesAvailable_def
    by (simp only: length_exampleHeader) simp
  with reset_keeps_chunks [of smallTwoRows] show ?thesis
    by simp
qed

text \<open>
  Claim C9 as stated fails: after \<^verbatim>\<open>initialize\<close> and two snapshots, \<^verbatim>\<open>reset\<close> leaves a
  recorder that is not initialised and still holds its three chunks.
\<close>

theorem reset_releases_chunks_counterexample:
  "initialize exampleK (oneInt 0) (Finite 1) exampleHeader freshRecorder = Some (SUCCESS, smallStart) \<and>
   flushAll exampleK [(oneInt 7, Finite 5), (oneInt 9, Finite 6)] smallStart = Some smallTwoRows \<and>
   length (flows (TelemetryRecorder_reset smallTwoRows)) = 3 \<and>
   \<not> getIsInitialized (TelemetryRecorder_reset smallTwoRows)"
  using initialize_small flushAll_small
  by (simp add: TelemetryRecorder_reset_def getIsInitialized_def del: flushAll.simps)

subsection \<open>Dumping and reading the log leave the recorder as it was\<close>













end
